theory Spec2Isabelle
  imports Complex_Main "HOL-Library.Option_ord" "HOL-Library.Product_Lexorder"
    "HOL-Library.Multiset"
begin

section \<open>Data model of \<open>atc.cache.CachedLoader\<close>\<close>

text \<open>
  A Spark column value is a typed scalar or SQL \<open>NULL\<close>; a \<open>cell\<close> is \<open>None\<close> for
  \<open>NULL\<close>. Timestamps are microseconds since the epoch. A data frame is its list of
  column names and its rows, each row holding one cell per column, in column order.
  The incoming frame and the frames the pluggable operations return are assumed to have
  pairwise different column names, and the incoming frame is assumed not to use the transient names of the reduction (\<open>rowHash\<close>,
  \<open>fromPayload\<close>, \<open>hashMatch\<close>, \<open>loadedTime\<close>, \<open>__cachePriority\<close>,
  \<open>__cacheOrder\<close>); the model keeps those transient columns in record fields.
  \<open>key_cols\<close> is assumed to name at least one column. Failures of the store itself
  (a table that cannot be read, a statement that cannot run) are not modelled, except
  the two that depend on the data: a column missing from a frame, and a merge with
  several source rows for one target row.
\<close>

datatype val = IntV int | StrV string | BoolV bool | TimestampV int

type_synonym cell = "val option"
type_synonym row = "cell list"

record DataFrame =
  columns :: "string list"
  rows :: "row list"

text \<open>Exceptions that leave the loader: the two kinds it raises itself, what Spark
  raises for a column a frame does not have, what the store raises when a merge
  finds several source rows for one target row, and whatever a pluggable operation
  raises.\<close>

datatype error =
    AssertionError string
  | AnalysisException
  | MergeError
  | OperationError string

text \<open>\<open>CachedLoaderParameters\<close> is imported by the module and not part of it; the
  record holds the attributes the loader reads. The last three are the names of the
  hash, loaded-time and deleted-time columns of the cache table.\<close>

record CachedLoaderParameters =
  cache_table_name :: string
  key_cols :: "string list"
  cache_id_cols :: "string list"
  max_ttl :: int
  refresh_ttl :: int
  refresh_row_limit :: int
  rowHash_name :: string
  loadedTime_name :: string
  deletedTime_name :: string

text \<open>A row of the cache table. \<open>validate\<close> pins the table's schema to the key
  columns, the cache id columns and the three bookkeeping columns, so a row is the key
  tuple, the hash, the two timestamps and the cache id values.\<close>

record cache_row =
  ckey :: "cell list"
  rowHash :: "int option"
  loadedTime :: "int option"
  deletedTime :: "int option"
  cache_ids :: "cell list"

subsection \<open>Frame operations\<close>

definition col :: "string list \<Rightarrow> row \<Rightarrow> string \<Rightarrow> cell" where
  "col cs r c = (case map_of (zip cs r) c of Some v \<Rightarrow> v | None \<Rightarrow> None)"

definition select_row :: "string list \<Rightarrow> string list \<Rightarrow> row \<Rightarrow> row" where
  "select_row cs out r = map (col cs r) out"

text \<open>\<open>df.dropDuplicates(key_cols)\<close>: one row per key tuple survives (Spark does not
  say which one; the model keeps the first). Grouping treats two \<open>NULL\<close>s as equal.\<close>

fun drop_dups :: "'k list \<Rightarrow> ('a \<Rightarrow> 'k) \<Rightarrow> 'a list \<Rightarrow> 'a list" where
  "drop_dups seen f [] = []"
| "drop_dups seen f (x # xs) =
     (if f x \<in> set seen then drop_dups seen f xs else x # drop_dups (f x # seen) f xs)"

definition dropDuplicates :: "string list \<Rightarrow> DataFrame \<Rightarrow> DataFrame" where
  "dropDuplicates ks df = df\<lparr>rows := drop_dups [] (select_row (columns df) ks) (rows df)\<rparr>"

text \<open>Equality of two key tuples as the join and the merge condition evaluate it: a
  \<open>NULL\<close> component makes the comparison \<open>NULL\<close>, which does not match.\<close>

definition not_null :: "cell list \<Rightarrow> bool" where
  "not_null k = list_all (\<lambda>v. v \<noteq> None) k"

definition sql_key_eq :: "cell list \<Rightarrow> cell list \<Rightarrow> bool" where
  "sql_key_eq k1 k2 = (k1 = k2 \<and> not_null k1)"

section \<open>The reduction: \<open>_discard_non_new_rows_against_cache\<close>\<close>

text \<open>A row of \<open>joined_df_incoming\<close>: the incoming row (\<open>key_cols\<close> and \<open>df.*\<close>, the
  latter with its \<open>rowHash\<close>), \<open>cache.loadedTime\<close> and \<open>hashMatch\<close>; the last two are
  \<open>NULL\<close> when the full join found no cache row for the key.\<close>

record joined_row =
  payload :: row
  df_rowHash :: int
  cache_loadedTime :: "int option"
  hashMatch :: "bool option"

text \<open>What the loader leaves to Spark. \<open>hash\<close> is \<open>f.hash\<close>, from the hashed cells to
  an integer. \<open>tie_order\<close> is the order in which a window hands over its rows before
  they are sorted: \<open>row_number\<close> over \<open>Window.orderBy\<close> does not say how rows that tie
  on the ordering columns follow each other, so every rearrangement of the rows is a
  possible one. \<open>star_repeats_keys\<close> says whether \<open>df.*\<close>, selected after a join on
  column names, still holds the join columns: Spark from 3.2 on keeps them, so that
  \<open>select(*key_cols, "df.*")\<close> returns each key column twice, and Spark 3.1 does
  not.\<close>

record spark =
  hash :: "row \<Rightarrow> int"
  tie_order :: "joined_row list \<Rightarrow> joined_row list"
  star_repeats_keys :: bool

text \<open>\<open>f.hash(*cs')\<close> on a frame with columns \<open>cs\<close> hashes the cells of the columns
  \<open>cs'\<close>, and \<open>f.hash("*")\<close> hashes every column of the frame.\<close>

definition hash_cols :: "spark \<Rightarrow> string list \<Rightarrow> string list \<Rightarrow> row \<Rightarrow> int" where
  "hash_cols h cs cs' r = hash h (select_row cs cs' r)"

definition hash_star :: "spark \<Rightarrow> string list \<Rightarrow> row \<Rightarrow> int" where
  "hash_star h cs r = hash_cols h cs cs r"

record ReductionResult =
  to_be_written :: DataFrame
  to_be_deleted :: "cache_row list"

definition filter_null_keys :: "CachedLoaderParameters \<Rightarrow> DataFrame \<Rightarrow> DataFrame" where
  "filter_null_keys p df =
     df\<lparr>rows := filter (\<lambda>r. not_null (select_row (columns df) (key_cols p) r)) (rows df)\<rparr>"

definition cache_matches :: "CachedLoaderParameters \<Rightarrow> string list \<Rightarrow> cache_row list \<Rightarrow> row \<Rightarrow> cache_row list" where
  "cache_matches p cs cache r =
     filter (\<lambda>c. sql_key_eq (select_row cs (key_cols p) r) (ckey c)) cache"

definition join_row :: "CachedLoaderParameters \<Rightarrow> spark \<Rightarrow> string list \<Rightarrow> cache_row list \<Rightarrow> row \<Rightarrow> joined_row list" where
  "join_row p h cs cache r =
     (let rh = hash_star h cs r; ms = cache_matches p cs cache r in
      if ms = []
      then [\<lparr>payload = r, df_rowHash = rh, cache_loadedTime = None, hashMatch = None\<rparr>]
      else map (\<lambda>c. \<lparr>payload = r, df_rowHash = rh, cache_loadedTime = loadedTime c,
                      hashMatch = map_option (\<lambda>ch. rh = ch) (rowHash c)\<rparr>) ms)"

definition joined_df_incoming :: "CachedLoaderParameters \<Rightarrow> spark \<Rightarrow> DataFrame \<Rightarrow> cache_row list \<Rightarrow> joined_row list" where
  "joined_df_incoming p h df cache =
     concat (map (join_row p h (columns df) cache) (rows (filter_null_keys p df)))"

definition unmatched_cache :: "CachedLoaderParameters \<Rightarrow> DataFrame \<Rightarrow> cache_row list \<Rightarrow> cache_row list" where
  "unmatched_cache p df cache =
     filter (\<lambda>c. \<not> list_ex (\<lambda>r. sql_key_eq (select_row (columns df) (key_cols p) r) (ckey c))
                        (rows (filter_null_keys p df))) cache"

text \<open>The priority column. \<open>now\<close> is \<open>datetime.now(timezone.utc).timestamp()\<close>, in
  seconds; the cast of \<open>loadedTime\<close> to \<open>LongType\<close> gives whole seconds. The
  arithmetic is exact here, where Spark computes in double precision.\<close>

definition lived :: "real \<Rightarrow> int \<Rightarrow> real" where
  "lived now lt = now - real_of_int (lt div 1000000)"

definition cachePriority :: "CachedLoaderParameters \<Rightarrow> real \<Rightarrow> joined_row \<Rightarrow> int" where
  "cachePriority p now j =
     (case cache_loadedTime j of
        None \<Rightarrow> 1
      | Some lt \<Rightarrow>
          if hashMatch j = Some False then 1
          else if max_ttl p > 0 \<and> lived now lt > real_of_int (max_ttl p) then 2
          else if refresh_ttl p > 0 \<and> lived now lt > real_of_int (refresh_ttl p) then 3
          else 1000)"

definition prioritised :: "CachedLoaderParameters \<Rightarrow> real \<Rightarrow> joined_row list \<Rightarrow> joined_row list" where
  "prioritised p now js = filter (\<lambda>j. cachePriority p now j < 100) js"

text \<open>The row budget. \<open>Window.orderBy("__cachePriority", "loadedTime")\<close> sorts
  ascending with \<open>NULL\<close> first; \<open>row_number\<close> counts from 1. Spark leaves the order of
  rows that tie on both columns open: the rows are sorted as \<open>tie\<close> hands them over,
  where \<open>tie\<close> may rearrange them in any way, and a \<open>tie\<close> that would lose or invent
  a row is not followed.\<close>

definition rearranged :: "('a list \<Rightarrow> 'a list) \<Rightarrow> 'a list \<Rightarrow> 'a list" where
  "rearranged tie xs = (if mset (tie xs) = mset xs then tie xs else xs)"

definition window_order ::
  "CachedLoaderParameters \<Rightarrow> real \<Rightarrow> (joined_row list \<Rightarrow> joined_row list) \<Rightarrow> joined_row list
     \<Rightarrow> joined_row list" where
  "window_order p now tie js =
     sort_key (\<lambda>j. (cachePriority p now j, cache_loadedTime j)) (rearranged tie js)"

definition row_number :: "'a list \<Rightarrow> ('a \<times> int) list" where
  "row_number xs = zip xs (map int [1 ..< Suc (length xs)])"

definition row_limit ::
  "CachedLoaderParameters \<Rightarrow> real \<Rightarrow> (joined_row list \<Rightarrow> joined_row list) \<Rightarrow> joined_row list
     \<Rightarrow> joined_row list" where
  "row_limit p now tie js =
     (if refresh_row_limit p > 0
      then map fst (filter (\<lambda>(j, n). cachePriority p now j < 3 \<or> n \<le> refresh_row_limit p)
                           (row_number (window_order p now tie js)))
      else js)"

definition filtered_df :: "CachedLoaderParameters \<Rightarrow> spark \<Rightarrow> real \<Rightarrow> DataFrame \<Rightarrow> cache_row list \<Rightarrow> joined_row list" where
  "filtered_df p h now df cache =
     row_limit p now (tie_order h) (prioritised p now (joined_df_incoming p h df cache))"

text \<open>The columns of \<open>to_be_written\<close>, \<open>select(*key_cols, "df.*", ...)\<close> less the
  transient ones: the key columns, then the columns of the incoming frame, all of them
  where \<open>df.*\<close> repeats the key columns and the others where it does not.\<close>

definition written_columns :: "CachedLoaderParameters \<Rightarrow> spark \<Rightarrow> DataFrame \<Rightarrow> string list" where
  "written_columns p h df =
     key_cols p @ (if star_repeats_keys h then columns df
                   else filter (\<lambda>c. c \<notin> set (key_cols p)) (columns df))"

definition discard_non_new_rows_against_cache ::
  "CachedLoaderParameters \<Rightarrow> spark \<Rightarrow> real \<Rightarrow> DataFrame \<Rightarrow> cache_row list \<Rightarrow> ReductionResult" where
  "discard_non_new_rows_against_cache p h now df_in cache =
     \<lparr>to_be_written =
        \<lparr>columns = written_columns p h df_in,
         rows = map (\<lambda>j. select_row (columns df_in) (written_columns p h df_in) (payload j))
                    (filtered_df p h now df_in cache)\<rparr>,
      to_be_deleted = unmatched_cache p df_in cache\<rparr>"

section \<open>The cache updater\<close>

text \<open>\<open>_extract_cache\<close>: the active rows of the cache table at its latest version.\<close>

definition extract_cache :: "cache_row list \<Rightarrow> cache_row list" where
  "extract_cache tbl =
     filter (\<lambda>c. deletedTime c = None \<and> rowHash c \<noteq> None \<and> loadedTime c \<noteq> None) tbl"

text \<open>\<open>_prepare_written_cache_update\<close>: \<open>ts\<close> is \<open>current_timestamp()\<close>. The
  \<open>select\<close> fails when the frame lacks one of the columns it names.\<close>

definition prepare_written_cache_update ::
  "CachedLoaderParameters \<Rightarrow> spark \<Rightarrow> int \<Rightarrow> DataFrame \<Rightarrow> string list \<Rightarrow> error + cache_row list" where
  "prepare_written_cache_update p h ts df columns_to_hash =
     (if set (key_cols p @ columns_to_hash @ cache_id_cols p) \<subseteq> set (columns df)
      then Inr (map (\<lambda>r. \<lparr>ckey = select_row (columns df) (key_cols p) r,
                           rowHash = Some (hash_cols h (columns df) columns_to_hash r),
                           loadedTime = Some ts,
                           deletedTime = None,
                           cache_ids = select_row (columns df) (cache_id_cols p) r\<rparr>) (rows df))
      else Inl AnalysisException)"

definition prepare_deleted_cache_update :: "int \<Rightarrow> cache_row list \<Rightarrow> cache_row list" where
  "prepare_deleted_cache_update ts df = map (\<lambda>c. c\<lparr>deletedTime := Some ts\<rparr>) df"

text \<open>The store's \<open>MERGE INTO target USING source ON\<close> (keys equal) \<open>WHEN MATCHED
  THEN UPDATE SET * WHEN NOT MATCHED THEN INSERT *\<close>: a target row with one matching
  source row takes all its columns, a source row without a target row is appended,
  and the statement fails when several source rows match one target row.\<close>

definition source_matches :: "cache_row list \<Rightarrow> cache_row \<Rightarrow> cache_row list" where
  "source_matches source t = filter (\<lambda>s. sql_key_eq (ckey s) (ckey t)) source"

definition merge_upsert :: "cache_row list \<Rightarrow> cache_row list \<Rightarrow> error + cache_row list" where
  "merge_upsert source target =
     (if list_ex (\<lambda>t. length (source_matches source t) > 1) target then Inl MergeError
      else Inr (map (\<lambda>t. case source_matches source t of [] \<Rightarrow> t | s # _ \<Rightarrow> s) target
                @ filter (\<lambda>s. \<not> list_ex (\<lambda>t. sql_key_eq (ckey s) (ckey t)) target) source))"

section \<open>The loader shell\<close>

text \<open>What a call can observe and change: the cache table, the two counters of the
  loader object, and the calls made to the pluggable operations and to
  \<open>_load_cache\<close>, in order, each with its argument.\<close>

datatype event =
    WriteOperation DataFrame
  | DeleteOperation "cache_row list"
  | LoadCache "cache_row list"

record loader_state =
  cache_table :: "cache_row list"
  n_rows_all_writes :: nat
  n_rows_last_write :: nat
  calls :: "event list"

text \<open>The two extension points of a concrete loader. Each returns a frame or
  \<open>None\<close>, or raises. \<open>delete_operation\<close> receives and returns frames of the cache
  table's schema.\<close>

record operations =
  write_operation :: "DataFrame \<Rightarrow> error + DataFrame option"
  delete_operation :: "cache_row list \<Rightarrow> error + cache_row list option"

text \<open>The clock readings of one \<open>save\<close>: \<open>datetime.now\<close> in the reduction (seconds),
  and \<open>current_timestamp()\<close> in the two cache updates (microseconds).\<close>

record clock =
  now :: real
  written_timestamp :: int
  deleted_timestamp :: int

text \<open>The class of the object under construction: whether it is \<open>CachedLoader\<close> itself,
  and the names its own body defines (\<open>self.__class__.__dict__\<close>).\<close>

record pyclass =
  is_CachedLoader :: bool
  class_dict :: "string list"

definition CachedLoader_class :: pyclass where
  "CachedLoader_class =
     \<lparr>is_CachedLoader = True,
      class_dict = [''ReductionResult'', ''__init__'', ''validate'', ''write_operation'',
                    ''delete_operation'', ''save'', ''_extract_cache'',
                    ''_prepare_written_cache_update'', ''_prepare_deleted_cache_update'',
                    ''_load_cache'', ''_discard_non_new_rows_against_cache'']\<rparr>"

text \<open>\<open>validate\<close>; \<open>table_columns\<close> is \<open>Spark.get().table(p.cache_table_name).columns\<close>.\<close>

definition validate :: "CachedLoaderParameters \<Rightarrow> string list \<Rightarrow> pyclass \<Rightarrow> error option" where
  "validate p table_columns cls =
     (if set table_columns \<noteq>
           set (key_cols p @ cache_id_cols p @ [rowHash_name p, loadedTime_name p, deletedTime_name p])
      then Some (AssertionError [])
      else
        let write_overloaded = (''write_operation'' \<in> set (class_dict cls));
            delete_overloaded = (''delete_operation'' \<in> set (class_dict cls))
        in if \<not> (write_overloaded \<or> delete_overloaded)
           then Some (AssertionError ''overload of write_operation or delete_operation required'')
           else if is_CachedLoader cls
           then Some (AssertionError ''You should inherit from this class'')
           else None)"

text \<open>\<open>__init__\<close>: the new loader, over the cache table as it stands, or the exception
  of \<open>validate\<close>.\<close>

definition init :: "CachedLoaderParameters \<Rightarrow> string list \<Rightarrow> pyclass \<Rightarrow> cache_row list \<Rightarrow> error + loader_state" where
  "init p table_columns cls tbl =
     (case validate p table_columns cls of
        Some e \<Rightarrow> Inl e
      | None \<Rightarrow> Inr \<lparr>cache_table = tbl, n_rows_all_writes = 0, n_rows_last_write = 0, calls = []\<rparr>)"

text \<open>\<open>_load_cache\<close>. A call returns the exception it raised, if any, and the state it
  left.\<close>

definition load_cache :: "cache_row list \<Rightarrow> loader_state \<Rightarrow> error option \<times> loader_state" where
  "load_cache cache_to_load s =
     (let s' = s\<lparr>calls := calls s @ [LoadCache cache_to_load]\<rparr>
      in case merge_upsert cache_to_load (cache_table s') of
           Inl e \<Rightarrow> (Some e, s')
         | Inr tbl \<Rightarrow> (None, s'\<lparr>cache_table := tbl\<rparr>))"

text \<open>The write branch of \<open>save\<close> after \<open>write_operation\<close> has returned
  \<open>df_written\<close>. A \<open>DataFrame\<close> object is true in a condition whatever it holds, so
  \<open>if df_written:\<close> tests for \<open>None\<close>.\<close>

definition write_branch ::
  "CachedLoaderParameters \<Rightarrow> spark \<Rightarrow> clock \<Rightarrow> string list \<Rightarrow> DataFrame option \<Rightarrow> loader_state
     \<Rightarrow> error option \<times> loader_state" where
  "write_branch p h clk in_cols df_written s =
     (case df_written of
        None \<Rightarrow> (None, s)
      | Some w \<Rightarrow>
          let s1 = s\<lparr>n_rows_last_write := length (rows w),
                     n_rows_all_writes := n_rows_all_writes s + length (rows w)\<rparr>
          in case prepare_written_cache_update p h (written_timestamp clk) w in_cols of
               Inl e \<Rightarrow> (Some e, s1)
             | Inr upd \<Rightarrow> load_cache upd s1)"

text \<open>The delete branch: \<open>if df_deleted:\<close> tests for \<open>None\<close> in the same way.\<close>

definition delete_branch ::
  "operations \<Rightarrow> clock \<Rightarrow> cache_row list \<Rightarrow> loader_state \<Rightarrow> error option \<times> loader_state" where
  "delete_branch ops clk to_delete s =
     (let s1 = s\<lparr>calls := calls s @ [DeleteOperation to_delete]\<rparr>
      in case delete_operation ops to_delete of
           Inl e \<Rightarrow> (Some e, s1)
         | Inr None \<Rightarrow> (None, s1)
         | Inr (Some df_deleted) \<Rightarrow>
             load_cache (prepare_deleted_cache_update (deleted_timestamp clk) df_deleted) s1)"

text \<open>What \<open>save\<close> computes before it calls the write operation: the batch without
  duplicate keys, reduced against the active rows of the cache table.\<close>

definition reduction ::
  "CachedLoaderParameters \<Rightarrow> spark \<Rightarrow> clock \<Rightarrow> loader_state \<Rightarrow> DataFrame \<Rightarrow> ReductionResult" where
  "reduction p h clk s df =
     discard_non_new_rows_against_cache p h (now clk)
       (dropDuplicates (key_cols p) df) (extract_cache (cache_table s))"

definition save ::
  "operations \<Rightarrow> CachedLoaderParameters \<Rightarrow> spark \<Rightarrow> clock \<Rightarrow> loader_state \<Rightarrow> DataFrame
     \<Rightarrow> error option \<times> loader_state" where
  "save ops p h clk s df =
     (let in_cols = columns df in
      if \<not> set (key_cols p) \<subseteq> set in_cols
      then (Some (AssertionError ''The key columns must be given in the input dataframe.''), s)
      else
        let result = reduction p h clk s df;
            s1 = s\<lparr>calls := calls s @ [WriteOperation (to_be_written result)]\<rparr>
        in case write_operation ops (to_be_written result) of
             Inl e \<Rightarrow> (Some e, s1)
           | Inr df_written \<Rightarrow>
               (case write_branch p h clk in_cols df_written s1 of
                  (Some e, s2) \<Rightarrow> (Some e, s2)
                | (None, s2) \<Rightarrow> delete_branch ops clk (to_be_deleted result) s2))"


section \<open>Example inputs\<close>

text \<open>A small polynomial hash stands in for Spark's where a concrete one is needed.\<close>

fun cell_code :: "cell \<Rightarrow> int" where
  "cell_code None = 0"
| "cell_code (Some (IntV i)) = i"
| "cell_code (Some (StrV s)) = int (length s)"
| "cell_code (Some (BoolV b)) = (if b then 1 else 0)"
| "cell_code (Some (TimestampV t)) = t"

definition ex_hash :: "row \<Rightarrow> int" where
  "ex_hash r = fold (\<lambda>c acc. 31 * acc + cell_code c) r 42"

text \<open>A Spark that hashes so, numbers tied rows in the order it finds them, and
  whose \<open>df.*\<close> leaves the join columns out; one that numbers tied rows in the
  opposite order; and one whose \<open>df.*\<close> repeats the join columns.\<close>

definition ex_spark :: spark where
  "ex_spark = \<lparr>hash = ex_hash, tie_order = (\<lambda>js. js), star_repeats_keys = False\<rparr>"

definition ex_spark_rev :: spark where
  "ex_spark_rev = \<lparr>hash = ex_hash, tie_order = rev, star_repeats_keys = False\<rparr>"

definition ex_spark_32 :: spark where
  "ex_spark_32 = \<lparr>hash = ex_hash, tie_order = (\<lambda>js. js), star_repeats_keys = True\<rparr>"

definition ex_params :: CachedLoaderParameters where
  "ex_params =
     \<lparr>cache_table_name = ''test.cache'', key_cols = [''a''], cache_id_cols = [''myId''],
      max_ttl = 0, refresh_ttl = 0, refresh_row_limit = 0,
      rowHash_name = ''rowHash'', loadedTime_name = ''loadedTime'',
      deletedTime_name = ''deletedTime''\<rparr>"

definition ex_clock :: clock where
  "ex_clock = \<lparr>now = 1000, written_timestamp = 1000000000, deleted_timestamp = 1000000001\<rparr>"

definition ex_cache_1 :: cache_row where
  "ex_cache_1 = \<lparr>ckey = [Some (IntV 1)], rowHash = Some 7, loadedTime = Some 5000000,
                  deletedTime = None, cache_ids = [Some (IntV 9)]\<rparr>"

definition ex_cache_3 :: cache_row where
  "ex_cache_3 = \<lparr>ckey = [Some (IntV 3)], rowHash = Some 8, loadedTime = Some 6000000,
                  deletedTime = None, cache_ids = [Some (IntV 9)]\<rparr>"

definition ex_state :: loader_state where
  "ex_state = \<lparr>cache_table = [ex_cache_1, ex_cache_3],
                n_rows_all_writes = 4, n_rows_last_write = 2, calls = []\<rparr>"

definition ex_df :: DataFrame where
  "ex_df = \<lparr>columns = [''a'', ''b''],
             rows = [[Some (IntV 1), Some (StrV ''x'')], [Some (IntV 2), Some (StrV ''y'')]]\<rparr>"

definition ex_failing_ops :: operations where
  "ex_failing_ops = \<lparr>write_operation = (\<lambda>d. Inl (OperationError ''write failed'')),
                      delete_operation = (\<lambda>d. Inr (Some d))\<rparr>"

text \<open>Three concrete loaders: one whose write operation adds the cache id column and
  reports every row as written, one whose write operation does nothing, and one whose
  write operation reports an empty frame.\<close>

definition ex_ops :: operations where
  "ex_ops = \<lparr>write_operation =
                (\<lambda>d. Inr (Some \<lparr>columns = columns d @ [''myId''],
                                 rows = map (\<lambda>r. r @ [Some (IntV 5)]) (rows d)\<rparr>)),
              delete_operation = (\<lambda>d. Inr (Some d))\<rparr>"

definition ex_none_ops :: operations where
  "ex_none_ops = \<lparr>write_operation = (\<lambda>d. Inr None), delete_operation = (\<lambda>d. Inr (Some d))\<rparr>"

definition ex_empty_ops :: operations where
  "ex_empty_ops = \<lparr>write_operation = (\<lambda>d. Inr (Some \<lparr>columns = columns d @ [''myId''], rows = []\<rparr>)),
                    delete_operation = (\<lambda>d. Inr (Some d))\<rparr>"

definition ex_table_columns :: "string list" where
  "ex_table_columns = [''a'', ''rowHash'', ''loadedTime'', ''deletedTime'', ''myId'']"

definition ex_both_class :: pyclass where
  "ex_both_class =
     \<lparr>is_CachedLoader = False, class_dict = [''write_operation'', ''delete_operation'']\<rparr>"

definition ex_delete_only_class :: pyclass where
  "ex_delete_only_class = \<lparr>is_CachedLoader = False, class_dict = [''delete_operation'']\<rparr>"

definition ex_no_override_class :: pyclass where
  "ex_no_override_class = \<lparr>is_CachedLoader = False, class_dict = [''save'']\<rparr>"

text \<open>The frame the first loader reports as written for \<open>ex_df\<close>, the cache rows
  prepared from it, and the cache row of key 3 once marked deleted.\<close>

definition ex_written :: DataFrame where
  "ex_written = \<lparr>columns = [''a'', ''b'', ''myId''],
                 rows = [[Some (IntV 1), Some (StrV ''x''), Some (IntV 5)],
                         [Some (IntV 2), Some (StrV ''y''), Some (IntV 5)]]\<rparr>"

definition ex_update_1 :: cache_row where
  "ex_update_1 = \<lparr>ckey = [Some (IntV 1)], rowHash = Some 40394, loadedTime = Some 1000000000,
                     deletedTime = None, cache_ids = [Some (IntV 5)]\<rparr>"

definition ex_update_2 :: cache_row where
  "ex_update_2 = \<lparr>ckey = [Some (IntV 2)], rowHash = Some 40425, loadedTime = Some 1000000000,
                     deletedTime = None, cache_ids = [Some (IntV 5)]\<rparr>"

definition ex_deleted_3 :: cache_row where
  "ex_deleted_3 = \<lparr>ckey = [Some (IntV 3)], rowHash = Some 8, loadedTime = Some 6000000,
                  deletedTime = Some 1000000001, cache_ids = [Some (IntV 9)]\<rparr>"

text \<open>Parameters with both time limits and a row budget of one.\<close>

definition ex_params_ttl :: CachedLoaderParameters where
  "ex_params_ttl = ex_params\<lparr>max_ttl := 100, refresh_ttl := 10, refresh_row_limit := 1\<rparr>"

definition ex_df_b :: DataFrame where
  "ex_df_b = \<lparr>columns = [''a'', ''b''],
               rows = [[Some (IntV 1), Some (StrV ''x'')], [Some (IntV 2), Some (StrV ''y'')],
                       [Some (IntV 4), Some (StrV ''z'')], [Some (IntV 5), Some (StrV ''w'')]]\<rparr>"

definition ex_cache_b :: "cache_row list" where
  "ex_cache_b =
     [\<lparr>ckey = [Some (IntV 1)], rowHash = Some 40394, loadedTime = Some 950000000,
        deletedTime = None, cache_ids = [Some (IntV 9)]\<rparr>,
      \<lparr>ckey = [Some (IntV 2)], rowHash = Some 40425, loadedTime = Some 940000000,
        deletedTime = None, cache_ids = [Some (IntV 9)]\<rparr>,
      \<lparr>ckey = [Some (IntV 4)], rowHash = Some 40487, loadedTime = Some 800000000,
        deletedTime = None, cache_ids = [Some (IntV 9)]\<rparr>]"

definition ex_params_b3 :: CachedLoaderParameters where
  "ex_params_b3 = ex_params\<lparr>max_ttl := 100, refresh_ttl := 10, refresh_row_limit := 3\<rparr>"

definition ex_j1 :: joined_row where
  "ex_j1 = \<lparr>payload = [Some (IntV 1), Some (StrV ''x'')], df_rowHash = 40394,
             cache_loadedTime = Some 950000000, hashMatch = Some True\<rparr>"

definition ex_j2 :: joined_row where
  "ex_j2 = \<lparr>payload = [Some (IntV 2), Some (StrV ''y'')], df_rowHash = 40425,
             cache_loadedTime = Some 940000000, hashMatch = Some True\<rparr>"

definition ex_j4 :: joined_row where
  "ex_j4 = \<lparr>payload = [Some (IntV 4), Some (StrV ''z'')], df_rowHash = 40487,
             cache_loadedTime = Some 800000000, hashMatch = Some True\<rparr>"

definition ex_j5 :: joined_row where
  "ex_j5 = \<lparr>payload = [Some (IntV 5), Some (StrV ''w'')], df_rowHash = 40518,
             cache_loadedTime = None, hashMatch = None\<rparr>"






definition ex_df_3 :: DataFrame where
  "ex_df_3 = \<lparr>columns = [''a'', ''b''], rows = [[Some (IntV 3), Some (StrV ''q'')]]\<rparr>"

text \<open>The states after a first call with \<open>ex_df\<close>: of the loader that reports the rows as
  written, and of the loader whose write operation does nothing.\<close>

definition ex_state_written :: loader_state where
  "ex_state_written =
     \<lparr>cache_table = [ex_update_1, ex_deleted_3, ex_update_2],
      n_rows_all_writes = 6, n_rows_last_write = 2,
      calls = [WriteOperation ex_df, LoadCache [ex_update_1, ex_update_2],
               DeleteOperation [ex_cache_3], LoadCache [ex_deleted_3]]\<rparr>"

definition ex_state_skipped :: loader_state where
  "ex_state_skipped =
     \<lparr>cache_table = [ex_cache_1, ex_deleted_3],
      n_rows_all_writes = 4, n_rows_last_write = 2,
      calls = [WriteOperation ex_df, DeleteOperation [ex_cache_3], LoadCache [ex_deleted_3]]\<rparr>"

text \<open>A cache row of key 1 that holds the hash of the cell of column \<open>b\<close> alone of the
  first row of \<open>ex_df\<close>.\<close>

definition ex_cache_1_b :: cache_row where
  "ex_cache_1_b = \<lparr>ckey = [Some (IntV 1)], rowHash = Some 1303, loadedTime = Some 5000000,
                    deletedTime = None, cache_ids = [Some (IntV 9)]\<rparr>"

text \<open>A cache in which the keys 1 and 2 were loaded at the same time, with the hashes of
  the rows of \<open>ex_df\<close>, and the joined row of key 2 against it.\<close>

definition ex_cache_tie :: "cache_row list" where
  "ex_cache_tie =
     [\<lparr>ckey = [Some (IntV 1)], rowHash = Some 40394, loadedTime = Some 950000000,
        deletedTime = None, cache_ids = [Some (IntV 9)]\<rparr>,
      \<lparr>ckey = [Some (IntV 2)], rowHash = Some 40425, loadedTime = Some 950000000,
        deletedTime = None, cache_ids = [Some (IntV 9)]\<rparr>]"

definition ex_t2 :: joined_row where
  "ex_t2 = \<lparr>payload = [Some (IntV 2), Some (StrV ''y'')], df_rowHash = 40425,
             cache_loadedTime = Some 950000000, hashMatch = Some True\<rparr>"










section \<open>A predicate on cache tables\<close>

text \<open>The key \<open>k\<close> is up to date with hash \<open>rh\<close> in a cache table: some active row has
  the key, and every active row with the key has the hash.\<close>

definition cached_with_hash :: "cell list \<Rightarrow> int \<Rightarrow> cache_row list \<Rightarrow> bool" where
  "cached_with_hash k rh tbl =
     ((\<exists>c \<in> set (extract_cache tbl). ckey c = k)
      \<and> (\<forall>c \<in> set (extract_cache tbl). ckey c = k \<longrightarrow> rowHash c = Some rh))"

section \<open>The choices left to Spark\<close>

lemma mset_rearranged [simp]: "mset (rearranged tie xs) = mset xs"
  by (simp add: rearranged_def)

lemma set_rearranged [simp]: "set (rearranged tie xs) = set xs"
  using mset_rearranged [of tie xs] by (rule mset_eq_setD)

lemma rearranged_Nil [simp]: "rearranged tie [] = []"
  by (simp add: rearranged_def)

lemma rearranged_id [simp]: "rearranged (\<lambda>js. js) xs = xs"
  by (simp add: rearranged_def)

lemma rearranged_rev [simp]: "rearranged rev xs = rev xs"
  by (simp add: rearranged_def)

lemma mset_window_order [simp]: "mset (window_order p t tie js) = mset js"
  by (simp add: window_order_def)

lemma set_window_order [simp]: "set (window_order p t tie js) = set js"
  by (simp add: window_order_def)

lemma length_filter_window_order:
  "length (filter P (window_order p t tie js)) = length (filter P js)"
proof -
  have "mset (filter P (window_order p t tie js)) = mset (filter P js)"
    by (simp only: mset_filter mset_window_order)
  then show ?thesis by (rule mset_eq_length)
qed

lemma ex_spark_simps [simp]:
  "hash ex_spark = ex_hash" "tie_order ex_spark = (\<lambda>js. js)" "star_repeats_keys ex_spark = False"
  "hash ex_spark_rev = ex_hash" "tie_order ex_spark_rev = rev" "star_repeats_keys ex_spark_rev = False"
  "hash ex_spark_32 = ex_hash" "tie_order ex_spark_32 = (\<lambda>js. js)" "star_repeats_keys ex_spark_32 = True"
  by (simp_all add: ex_spark_def ex_spark_rev_def ex_spark_32_def)

section \<open>Evaluation of the examples\<close>

lemmas ex_defs = ex_params_def ex_clock_def ex_state_def ex_df_def ex_hash_def
  ex_cache_1_def ex_cache_3_def

lemmas reduce_defs = reduction_def discard_non_new_rows_against_cache_def
  extract_cache_def dropDuplicates_def select_row_def col_def written_columns_def
  filtered_df_def row_limit_def prioritised_def joined_df_incoming_def filter_null_keys_def
  join_row_def cache_matches_def sql_key_eq_def not_null_def cachePriority_def hash_star_def
  hash_cols_def unmatched_cache_def lived_def window_order_def row_number_def

lemmas save_defs = save_def Let_def write_branch_def delete_branch_def load_cache_def
  merge_upsert_def source_matches_def prepare_written_cache_update_def
  prepare_deleted_cache_update_def

lemma ex_reduction:
  "reduction ex_params ex_spark ex_clock ex_state ex_df =
     \<lparr>to_be_written = ex_df, to_be_deleted = [ex_cache_3]\<rparr>"
  by (simp add: reduce_defs ex_defs)

section \<open>The call log and the counters\<close>

lemma calls_load_cache: "calls (snd (load_cache u s)) = calls s @ [LoadCache u]"
  by (simp add: load_cache_def Let_def split: sum.splits)

lemma n_rows_load_cache:
  "n_rows_last_write (snd (load_cache u s)) = n_rows_last_write s"
  "n_rows_all_writes (snd (load_cache u s)) = n_rows_all_writes s"
  by (simp_all add: load_cache_def Let_def split: sum.splits)

lemma calls_delete_branch:
  "\<exists>rest. calls (snd (delete_branch ops clk d s)) = calls s @ [DeleteOperation d] @ rest"
  by (simp add: delete_branch_def Let_def calls_load_cache split: sum.splits option.splits)

lemma n_rows_delete_branch:
  "n_rows_last_write (snd (delete_branch ops clk d s)) = n_rows_last_write s"
  "n_rows_all_writes (snd (delete_branch ops clk d s)) = n_rows_all_writes s"
  by (simp_all add: delete_branch_def Let_def n_rows_load_cache split: sum.splits option.splits)

section \<open>A call of \<open>save\<close> in which both operations return a frame\<close>

lemma save_written_deleted:
  assumes "set (key_cols p) \<subseteq> set (columns df)"
    and "reduction p h clk s df = \<lparr>to_be_written = w, to_be_deleted = d\<rparr>"
    and "write_operation ops w = Inr (Some w')"
    and "prepare_written_cache_update p h (written_timestamp clk) w' (columns df) = Inr upd"
    and "merge_upsert upd (cache_table s) = Inr ta"
    and "delete_operation ops d = Inr (Some d')"
    and "merge_upsert (prepare_deleted_cache_update (deleted_timestamp clk) d') ta = Inr tb"
  shows "save ops p h clk s df =
    (None, \<lparr>cache_table = tb,
            n_rows_all_writes = n_rows_all_writes s + length (rows w'),
            n_rows_last_write = length (rows w'),
            calls = calls s @ [WriteOperation w, LoadCache upd, DeleteOperation d,
                      LoadCache (prepare_deleted_cache_update (deleted_timestamp clk) d')]\<rparr>)"
  using assms
  by (simp add: save_def Let_def write_branch_def delete_branch_def load_cache_def)

lemma save_skipped_deleted:
  assumes "set (key_cols p) \<subseteq> set (columns df)"
    and "reduction p h clk s df = \<lparr>to_be_written = w, to_be_deleted = d\<rparr>"
    and "write_operation ops w = Inr None"
    and "delete_operation ops d = Inr (Some d')"
    and "merge_upsert (prepare_deleted_cache_update (deleted_timestamp clk) d') (cache_table s) = Inr tb"
  shows "save ops p h clk s df =
    (None, s\<lparr>cache_table := tb,
            calls := calls s @ [WriteOperation w, DeleteOperation d,
                      LoadCache (prepare_deleted_cache_update (deleted_timestamp clk) d')]\<rparr>)"
  using assms
  by (simp add: save_def Let_def write_branch_def delete_branch_def load_cache_def)

lemma merge_upsert_Nil: "merge_upsert [] tbl = Inr tbl"
  by (simp add: merge_upsert_def source_matches_def list_ex_iff)

section \<open>The example calls\<close>

lemma ex_keys: "set (key_cols ex_params) \<subseteq> set (columns ex_df)"
  by (simp add: ex_params_def ex_df_def)

lemma ex_clock_simps:
  "deleted_timestamp ex_clock = 1000000001" "written_timestamp ex_clock = 1000000000"
  "now ex_clock = 1000"
  by (simp_all add: ex_clock_def)

lemma ex_state_simps:
  "cache_table ex_state = [ex_cache_1, ex_cache_3]" "calls ex_state = []"
  "n_rows_all_writes ex_state = 4" "n_rows_last_write ex_state = 2"
  by (simp_all add: ex_state_def)

lemma ex_write_ops: "write_operation ex_ops ex_df = Inr (Some ex_written)"
  by (simp add: ex_ops_def ex_df_def ex_written_def)

lemma ex_write_empty: "write_operation ex_empty_ops ex_df = Inr (Some \<lparr>columns = [''a'', ''b'', ''myId''], rows = []\<rparr>)"
  by (simp add: ex_empty_ops_def ex_df_def)

lemma ex_delete_ops:
  "delete_operation ex_ops d = Inr (Some d)" "delete_operation ex_none_ops d = Inr (Some d)"
  "delete_operation ex_empty_ops d = Inr (Some d)" "write_operation ex_none_ops w = Inr None"
  by (simp_all add: ex_ops_def ex_none_ops_def ex_empty_ops_def)

lemma ex_prepare_written:
  "prepare_written_cache_update ex_params ex_spark 1000000000 ex_written (columns ex_df)
     = Inr [ex_update_1, ex_update_2]"
  by (simp add: prepare_written_cache_update_def ex_params_def ex_written_def ex_df_def
       ex_update_1_def ex_update_2_def hash_cols_def select_row_def col_def ex_hash_def)

lemma ex_prepare_empty:
  "prepare_written_cache_update ex_params ex_spark 1000000000
     \<lparr>columns = [''a'', ''b'', ''myId''], rows = []\<rparr> (columns ex_df) = Inr []"
  by (simp add: prepare_written_cache_update_def ex_params_def ex_df_def)

lemma ex_prepare_deleted: "prepare_deleted_cache_update 1000000001 [ex_cache_3] = [ex_deleted_3]"
  by (simp add: prepare_deleted_cache_update_def ex_cache_3_def ex_deleted_3_def)

lemma ex_merge_written:
  "merge_upsert [ex_update_1, ex_update_2] [ex_cache_1, ex_cache_3]
     = Inr [ex_update_1, ex_cache_3, ex_update_2]"
  by (simp add: merge_upsert_def source_matches_def sql_key_eq_def not_null_def
        ex_cache_1_def ex_cache_3_def ex_update_1_def ex_update_2_def)

lemma ex_merge_deleted:
  "merge_upsert [ex_deleted_3] [ex_cache_1, ex_cache_3] = Inr [ex_cache_1, ex_deleted_3]"
  by (simp add: merge_upsert_def source_matches_def sql_key_eq_def not_null_def
        ex_cache_1_def ex_cache_3_def ex_deleted_3_def)

lemma ex_merge_deleted_after:
  "merge_upsert [ex_deleted_3] [ex_update_1, ex_cache_3, ex_update_2]
     = Inr [ex_update_1, ex_deleted_3, ex_update_2]"
  by (simp add: merge_upsert_def source_matches_def sql_key_eq_def not_null_def
        ex_update_1_def ex_update_2_def ex_cache_3_def ex_deleted_3_def)

lemma ex_save_none:
  "save ex_none_ops ex_params ex_spark ex_clock ex_state ex_df =
     (None, ex_state\<lparr>cache_table := [ex_cache_1, ex_deleted_3],
        calls := [WriteOperation ex_df, DeleteOperation [ex_cache_3], LoadCache [ex_deleted_3]]\<rparr>)"
  using save_skipped_deleted [where tb = "[ex_cache_1, ex_deleted_3]",
     OF ex_keys ex_reduction ex_delete_ops(4) ex_delete_ops(2)]
  by (simp add: ex_clock_simps ex_state_simps ex_prepare_deleted ex_merge_deleted)

lemma ex_save_empty:
  "save ex_empty_ops ex_params ex_spark ex_clock ex_state ex_df =
     (None, \<lparr>cache_table = [ex_cache_1, ex_deleted_3],
        n_rows_all_writes = 4, n_rows_last_write = 0,
        calls = [WriteOperation ex_df, LoadCache [], DeleteOperation [ex_cache_3],
                 LoadCache [ex_deleted_3]]\<rparr>)"
  using save_written_deleted [where h = ex_spark and upd = "[]"
     and ta = "[ex_cache_1, ex_cache_3]" and tb = "[ex_cache_1, ex_deleted_3]",
     OF ex_keys ex_reduction ex_write_empty _ _ ex_delete_ops(3)]
  by (simp add: ex_clock_simps ex_state_simps ex_prepare_deleted ex_merge_deleted
        ex_prepare_empty merge_upsert_Nil)

lemma ex_save_ops:
  "save ex_ops ex_params ex_spark ex_clock ex_state ex_df =
     (None, \<lparr>cache_table = [ex_update_1, ex_deleted_3, ex_update_2],
        n_rows_all_writes = 6, n_rows_last_write = 2,
        calls = [WriteOperation ex_df, LoadCache [ex_update_1, ex_update_2],
                 DeleteOperation [ex_cache_3], LoadCache [ex_deleted_3]]\<rparr>)"
  using save_written_deleted [where h = ex_spark and upd = "[ex_update_1, ex_update_2]"
     and ta = "[ex_update_1, ex_cache_3, ex_update_2]"
     and tb = "[ex_update_1, ex_deleted_3, ex_update_2]",
     OF ex_keys ex_reduction ex_write_ops _ _ ex_delete_ops(1)]
  by (simp add: ex_clock_simps ex_state_simps ex_prepare_deleted ex_merge_deleted_after
        ex_prepare_written ex_merge_written) (simp add: ex_written_def)

section \<open>Facts about the reduction\<close>

lemma filter_null_keys_simps:
  "columns (filter_null_keys p df) = columns df"
  "set (rows (filter_null_keys p df)) =
     {r \<in> set (rows df). not_null (select_row (columns df) (key_cols p) r)}"
  by (auto simp: filter_null_keys_def)

lemma join_row_fields:
  assumes "j \<in> set (join_row p h cs cache r)"
  shows "payload j = r" and "df_rowHash j = hash_star h cs r"
  using assms by (auto simp: join_row_def Let_def split: if_splits)

lemma join_row_nonempty: "join_row p h cs cache r \<noteq> []"
  by (simp add: join_row_def Let_def)

lemma in_joined_df_incoming:
  "j \<in> set (joined_df_incoming p h df cache) \<longleftrightarrow>
     (\<exists>r \<in> set (rows df). not_null (select_row (columns df) (key_cols p) r)
        \<and> j \<in> set (join_row p h (columns df) cache r))"
  by (auto simp: joined_df_incoming_def filter_null_keys_simps)

lemma map_fst_row_number: "map fst (row_number xs) = xs"
  unfolding row_number_def by (rule map_fst_zip) (simp del: upt_Suc)

lemma row_number_keeps:
  assumes "x \<in> set xs" and "P x"
  shows "x \<in> set (map fst (filter (\<lambda>(j, n). P j \<or> Q n) (row_number xs)))"
proof -
  from assms(1) have "x \<in> set (map fst (row_number xs))"
    by (simp add: map_fst_row_number)
  then obtain n where "(x, n) \<in> set (row_number xs)" by auto
  with assms(2) show ?thesis by force
qed

lemma row_limit_keeps:
  assumes "j \<in> set js" and "cachePriority p t j < 3"
  shows "j \<in> set (row_limit p t tie js)"
proof (cases "refresh_row_limit p > 0")
  case True
  have "j \<in> set (window_order p t tie js)"
    using assms(1) by (simp add: window_order_def)
  from row_number_keeps [OF this, of "\<lambda>j. cachePriority p t j < 3", OF assms(2)]
  show ?thesis using True by (simp add: row_limit_def)
next
  case False
  with assms(1) show ?thesis by (simp add: row_limit_def)
qed

lemma row_limit_subset: "set (row_limit p t tie js) \<subseteq> set js"
proof (cases "refresh_row_limit p > 0")
  case True
  have "set (map fst (filter (\<lambda>(j, n). cachePriority p t j < 3 \<or> n \<le> refresh_row_limit p)
                 (row_number (window_order p t tie js))))
        \<subseteq> set (map fst (row_number (window_order p t tie js)))"
    by auto
  then show ?thesis using True
    by (simp only: row_limit_def map_fst_row_number if_True) (simp add: window_order_def)
next
  case False
  then show ?thesis by (simp add: row_limit_def)
qed

lemma priority_one_in_filtered_df:
  assumes "j \<in> set (joined_df_incoming p h df cache)" and "cachePriority p t j = 1"
  shows "j \<in> set (filtered_df p h t df cache)"
  unfolding filtered_df_def
  by (rule row_limit_keeps) (use assms in \<open>simp_all add: prioritised_def\<close>)

lemma filtered_df_subset:
  "set (filtered_df p h t df cache) \<subseteq> set (joined_df_incoming p h df cache)"
  using row_limit_subset [of p t "tie_order h" "prioritised p t (joined_df_incoming p h df cache)"]
  by (auto simp: filtered_df_def prioritised_def)

lemma rows_to_be_written:
  "rows (to_be_written (discard_non_new_rows_against_cache p h t df cache)) =
     map (\<lambda>j. select_row (columns df) (written_columns p h df) (payload j))
         (filtered_df p h t df cache)"
  by (simp add: discard_non_new_rows_against_cache_def)

lemma ex_params_ttl_simps:
  "key_cols ex_params_ttl = [''a'']" "key_cols ex_params = [''a'']"
  by (simp_all add: ex_params_ttl_def ex_params_def)

lemma ex_df_simps:
  "columns ex_df = [''a'', ''b'']"
  "rows ex_df = [[Some (IntV 1), Some (StrV ''x'')], [Some (IntV 2), Some (StrV ''y'')]]"
  by (simp_all add: ex_df_def)

lemma ex_hash_values:
  "ex_hash [Some (IntV 1), Some (StrV ''x'')] = 40394"
  "ex_hash [Some (IntV 2), Some (StrV ''y'')] = 40425"
  "ex_hash [Some (StrV ''x'')] = 1303"
  "ex_hash [Some (StrV ''y'')] = 1303"
  by (simp_all add: ex_hash_def)

lemma map_of_zip_map:
  "map_of (zip xs (map f xs)) k = (if k \<in> set xs then Some (f k) else None)"
  by (induction xs) auto

lemma col_select_row: "k \<in> set out \<Longrightarrow> col out (select_row cs out r) k = col cs r k"
  by (simp add: col_def select_row_def map_of_zip_map)

lemma select_row_select_row:
  "set ks \<subseteq> set out \<Longrightarrow> select_row out ks (select_row cs out r) = select_row cs ks r"
  by (auto simp: select_row_def [of out ks] select_row_def [of cs ks] col_select_row)

lemma key_of_written_row:
  "select_row (written_columns p h df) (key_cols p)
     (select_row (columns df) (written_columns p h df) r) = select_row (columns df) (key_cols p) r"
  by (rule select_row_select_row) (simp add: written_columns_def)

lemma in_unmatched_cache:
  "c \<in> set (unmatched_cache p df cache) \<longleftrightarrow>
     c \<in> set cache \<and>
     \<not> (\<exists>r \<in> set (rows df). not_null (select_row (columns df) (key_cols p) r)
            \<and> select_row (columns df) (key_cols p) r = ckey c)"
  by (auto simp: unmatched_cache_def list_ex_iff filter_null_keys_simps sql_key_eq_def)

lemma to_be_deleted_eq:
  "to_be_deleted (discard_non_new_rows_against_cache p h t df cache) = unmatched_cache p df cache"
  by (simp add: discard_non_new_rows_against_cache_def)

lemma written_row_origin:
  assumes "w \<in> set (rows (to_be_written (discard_non_new_rows_against_cache p h t df cache)))"
  shows "\<exists>r \<in> set (rows df). not_null (select_row (columns df) (key_cols p) r)
           \<and> w = select_row (columns df) (written_columns p h df) r"
proof -
  from assms obtain j where j: "j \<in> set (filtered_df p h t df cache)"
    "w = select_row (columns df) (written_columns p h df) (payload j)"
    by (auto simp: rows_to_be_written)
  from j(1) filtered_df_subset have "j \<in> set (joined_df_incoming p h df cache)" by blast
  then obtain r where "r \<in> set (rows df)" "not_null (select_row (columns df) (key_cols p) r)"
    "j \<in> set (join_row p h (columns df) cache r)"
    by (auto simp: in_joined_df_incoming)
  with j(2) join_row_fields(1) [of j p h "columns df" cache r] show ?thesis by auto
qed

lemma ex_discard:
  "discard_non_new_rows_against_cache ex_params ex_spark 1000 ex_df [ex_cache_1, ex_cache_3] =
     \<lparr>to_be_written = ex_df, to_be_deleted = [ex_cache_3]\<rparr>"
  by (simp add: reduce_defs ex_defs)

lemma hash_star_all_columns: "hash_star h cs r = hash h (select_row cs cs r)"
  by (simp add: hash_star_def hash_cols_def)

lemma join_row_hashMatch:
  assumes "j \<in> set (join_row p h cs cache r)"
  shows "hashMatch j = None
       \<or> (\<exists>c \<in> set cache. \<exists>ch. rowHash c = Some ch \<and> hashMatch j = Some (hash_star h cs r = ch))"
proof -
  from assms consider "hashMatch j = None"
    | c where "c \<in> set cache" "hashMatch j = map_option (\<lambda>ch. hash_star h cs r = ch) (rowHash c)"
    by (auto simp: join_row_def Let_def cache_matches_def split: if_splits)
  then show ?thesis
  proof cases
    case 1
    then show ?thesis by simp
  next
    case (2 c)
    then show ?thesis by (cases "rowHash c") auto
  qed
qed

lemma ex_joined:
  "joined_df_incoming ex_params ex_spark ex_df [ex_cache_1, ex_cache_3] =
     [\<lparr>payload = [Some (IntV 1), Some (StrV ''x'')], df_rowHash = 40394,
        cache_loadedTime = Some 5000000, hashMatch = Some False\<rparr>,
      \<lparr>payload = [Some (IntV 2), Some (StrV ''y'')], df_rowHash = 40425,
        cache_loadedTime = None, hashMatch = None\<rparr>]"
  by (simp add: joined_df_incoming_def filter_null_keys_def join_row_def cache_matches_def
        sql_key_eq_def not_null_def hash_star_def hash_cols_def select_row_def col_def
        ex_df_simps ex_params_ttl_simps ex_hash_values ex_cache_1_def ex_cache_3_def)

text \<open>The layout of \<open>to_be_written\<close> for the batch \<open>ex_df\<close> with key column \<open>a\<close>, by a
  Spark whose \<open>df.*\<close> leaves the join columns out and by one whose \<open>df.*\<close> repeats
  them.\<close>

lemma ex_written_layout:
  "written_columns ex_params ex_spark ex_df = [''a'', ''b'']"
  "written_columns ex_params ex_spark_32 ex_df = [''a'', ''a'', ''b'']"
  "to_be_written (discard_non_new_rows_against_cache ex_params ex_spark_32 1000 ex_df
      [ex_cache_1, ex_cache_3])
     = \<lparr>columns = [''a'', ''a'', ''b''],
        rows = [[Some (IntV 1), Some (IntV 1), Some (StrV ''x'')],
                [Some (IntV 2), Some (IntV 2), Some (StrV ''y'')]]\<rparr>"
  by (simp_all add: reduce_defs ex_defs)

section \<open>The row budget\<close>

lemma sorted_split_less:
  fixes f :: "'a \<Rightarrow> int"
  assumes "sorted (map f xs)"
  shows "filter (\<lambda>x. f x < c) xs @ filter (\<lambda>x. \<not> f x < c) xs = xs"
  using assms
proof (induction xs)
  case Nil
  then show ?case by simp
next
  case (Cons x xs)
  show ?case
  proof (cases "f x < c")
    case True
    with Cons show ?thesis by simp
  next
    case False
    with Cons.prems have "\<forall>y \<in> set xs. \<not> f y < c" by auto
    then have "filter (\<lambda>x. f x < c) xs = []" "filter (\<lambda>x. \<not> f x < c) xs = xs"
      by (simp_all add: filter_empty_conv)
    with False show ?thesis by simp
  qed
qed

lemma numbered_all_pass:
  assumes "\<forall>x \<in> set xs. P x"
  shows "map fst (filter (\<lambda>(j, n). P j \<or> Q n) (zip xs ns)) = map fst (zip xs ns)"
proof -
  have "filter (\<lambda>(j, n). P j \<or> Q n) (zip xs ns) = zip xs ns"
    using assms by (auto simp: filter_id_conv dest: set_zip_leftD)
  then show ?thesis by simp
qed

lemma numbered_budget:
  assumes "\<forall>x \<in> set xs. \<not> P x"
  shows "map fst (filter (\<lambda>(j, n). P j \<or> n \<le> L) (zip xs (map int [k ..< k + length xs])))
           = take (nat (L - int k + 1)) xs"
  using assms
proof (induction xs arbitrary: k)
  case Nil
  then show ?case by simp
next
  case (Cons x xs)
  have up: "[k ..< Suc (k + length xs)] = k # [Suc k ..< Suc (k + length xs)]"
    by (simp add: upt_rec)
  from Cons.prems have ih: "map fst (filter (\<lambda>(j, n). P j \<or> n \<le> L)
        (zip xs (map int [Suc k ..< Suc k + length xs]))) = take (nat (L - int (Suc k) + 1)) xs"
    by (intro Cons.IH) simp
  show ?case
  proof (cases "int k \<le> L")
    case True
    then have "nat (L - int k + 1) = Suc (nat (L - int (Suc k) + 1))" by simp
    with True Cons.prems ih show ?thesis by (simp add: up del: upt_Suc)
  next
    case False
    then have "nat (L - int k + 1) = 0" "nat (L - int (Suc k) + 1) = 0" by simp_all
    with False Cons.prems ih show ?thesis by (simp add: up del: upt_Suc)
  qed
qed

lemma row_number_append:
  "row_number (xs @ ys) =
     zip xs (map int [1 ..< 1 + length xs]) @ zip ys (map int [1 + length xs ..< 1 + length xs + length ys])"
proof -
  have "[1 ..< Suc (length xs + length ys)] = [1 ..< 1 + length xs] @ [1 + length xs ..< 1 + length xs + length ys]"
    by (metis Suc_eq_plus1_left add.assoc le_add1 upt_add_eq_append)
  then show ?thesis
    by (simp add: row_number_def zip_append del: upt_Suc)
qed

lemma budget_filter_split:
  assumes "\<forall>x \<in> set xs. P x" and "\<forall>y \<in> set ys. \<not> P y"
  shows "map fst (filter (\<lambda>(j, n). P j \<or> n \<le> L) (row_number (xs @ ys)))
           = xs @ take (nat (L - int (length xs))) ys"
proof -
  have a: "map fst (filter (\<lambda>(j, n). P j \<or> n \<le> L) (zip xs (map int [1 ..< 1 + length xs]))) = xs"
    using numbered_all_pass [OF assms(1), of "\<lambda>n. n \<le> L" "map int [1 ..< 1 + length xs]"]
    by (simp add: map_fst_zip del: upt_Suc)
  have b: "map fst (filter (\<lambda>(j, n). P j \<or> n \<le> L)
             (zip ys (map int [1 + length xs ..< 1 + length xs + length ys])))
           = take (nat (L - int (1 + length xs) + 1)) ys"
    by (rule numbered_budget [OF assms(2)])
  show ?thesis
    by (simp only: row_number_append filter_append map_append a b) simp
qed

lemma sorted_window_order: "sorted (map (cachePriority p t) (window_order p t tie js))"
proof -
  have "sorted (map (\<lambda>j. (cachePriority p t j, cache_loadedTime j)) (window_order p t tie js))"
    by (simp add: window_order_def)
  then have "sorted_wrt (\<lambda>a b. (cachePriority p t a, cache_loadedTime a)
                                 \<le> (cachePriority p t b, cache_loadedTime b)) (window_order p t tie js)"
    by (simp add: sorted_map)
  then have "sorted_wrt (\<lambda>a b. cachePriority p t a \<le> cachePriority p t b) (window_order p t tie js)"
    by (rule sorted_wrt_mono_rel [rotated]) (auto simp: less_eq_prod_def)
  then show ?thesis by (simp add: sorted_map)
qed

lemma row_limit_positive:
  assumes "refresh_row_limit p > 0"
  shows "row_limit p t tie js =
           filter (\<lambda>j. cachePriority p t j < 3) (window_order p t tie js)
           @ take (nat (refresh_row_limit p - int (length (filter (\<lambda>j. cachePriority p t j < 3) js))))
                  (filter (\<lambda>j. \<not> cachePriority p t j < 3) (window_order p t tie js))"
proof -
  let ?P = "\<lambda>j. cachePriority p t j < 3"
  let ?w = "window_order p t tie js"
  have split: "filter ?P ?w @ filter (\<lambda>j. \<not> ?P j) ?w = ?w"
    by (rule sorted_split_less [OF sorted_window_order])
  have len: "length (filter ?P ?w) = length (filter ?P js)"
    by (rule length_filter_window_order)
  have "row_limit p t tie js =
          map fst (filter (\<lambda>(j, n). ?P j \<or> n \<le> refresh_row_limit p)
                          (row_number (filter ?P ?w @ filter (\<lambda>j. \<not> ?P j) ?w)))"
    using assms by (simp only: split row_limit_def if_True)
  also have "\<dots> = filter ?P ?w
       @ take (nat (refresh_row_limit p - int (length (filter ?P ?w)))) (filter (\<lambda>j. \<not> ?P j) ?w)"
    by (rule budget_filter_split) simp_all
  finally show ?thesis by (simp only: len)
qed

lemma cachePriority_cases:
  "cachePriority p t j = 1 \<or> cachePriority p t j = 2 \<or> cachePriority p t j = 3
   \<or> cachePriority p t j = 1000"
  by (simp add: cachePriority_def split: option.splits)

lemma prioritised_priority:
  assumes "j \<in> set (prioritised p t js)"
  shows "cachePriority p t j = 1 \<or> cachePriority p t j = 2 \<or> cachePriority p t j = 3"
  using assms cachePriority_cases [of p t j] by (auto simp: prioritised_def)

lemma insort_key_pair_const:
  fixes g :: "'a \<Rightarrow> 'b::linorder" and f :: "'a \<Rightarrow> int"
  assumes "f x = c" and "\<forall>y \<in> set ys. f y = c"
  shows "insort_key (\<lambda>x. (f x, g x)) x ys = insort_key g x ys"
  using assms by (induction ys) (simp_all add: less_eq_prod_def)

lemma sort_key_pair_const:
  fixes g :: "'a \<Rightarrow> 'b::linorder" and f :: "'a \<Rightarrow> int"
  assumes "\<forall>y \<in> set ys. f y = c"
  shows "sort_key (\<lambda>x. (f x, g x)) ys = sort_key g ys"
  using assms
proof (induction ys)
  case Nil
  then show ?case by simp
next
  case (Cons y ys)
  then have "sort_key (\<lambda>x. (f x, g x)) ys = sort_key g ys" by simp
  moreover have "insort_key (\<lambda>x. (f x, g x)) y (sort_key g ys) = insort_key g y (sort_key g ys)"
    using Cons.prems by (intro insort_key_pair_const) auto
  ultimately show ?case by simp
qed

lemma soft_refresh_in_window_order:
  assumes "\<forall>j \<in> set js. cachePriority p t j = 1 \<or> cachePriority p t j = 2 \<or> cachePriority p t j = 3"
  shows "filter (\<lambda>j. \<not> cachePriority p t j < 3) (window_order p t tie js)
           = sort_key cache_loadedTime
               (filter (\<lambda>j. cachePriority p t j = 3) (rearranged tie js))"
proof -
  have "\<forall>j \<in> set (rearranged tie js).
          cachePriority p t j = 1 \<or> cachePriority p t j = 2 \<or> cachePriority p t j = 3"
    using assms by simp
  then have eq: "filter (\<lambda>j. \<not> cachePriority p t j < 3) (rearranged tie js)
                   = filter (\<lambda>j. cachePriority p t j = 3) (rearranged tie js)"
    by (intro filter_cong) auto
  have "filter (\<lambda>j. \<not> cachePriority p t j < 3) (window_order p t tie js)
          = sort_key (\<lambda>j. (cachePriority p t j, cache_loadedTime j))
              (filter (\<lambda>j. cachePriority p t j = 3) (rearranged tie js))"
    by (simp add: window_order_def filter_sort eq)
  also have "\<dots> = sort_key cache_loadedTime
                      (filter (\<lambda>j. cachePriority p t j = 3) (rearranged tie js))"
    by (rule sort_key_pair_const [where c = 3]) simp
  finally show ?thesis .
qed

text \<open>The rows of priority 3 in the order of the window: every one of them, once each,
  ascending in \<open>loadedTime\<close>.\<close>

lemma soft_refresh_order:
  "mset (sort_key cache_loadedTime (filter (\<lambda>j. cachePriority p t j = 3) (rearranged tie js)))
     = mset (filter (\<lambda>j. cachePriority p t j = 3) js)"
  "sorted (map cache_loadedTime
     (sort_key cache_loadedTime (filter (\<lambda>j. cachePriority p t j = 3) (rearranged tie js))))"
  by (simp_all only: mset_sort mset_filter mset_rearranged sorted_sort_key)

lemma soft_refresh_admitted:
  assumes "refresh_row_limit p > 0"
    and "\<forall>j \<in> set js. cachePriority p t j = 1 \<or> cachePriority p t j = 2 \<or> cachePriority p t j = 3"
  shows "filter (\<lambda>j. cachePriority p t j = 3) (row_limit p t tie js)
     = take (nat (refresh_row_limit p - int (length (filter (\<lambda>j. cachePriority p t j < 3) js))))
            (sort_key cache_loadedTime
               (filter (\<lambda>j. cachePriority p t j = 3) (rearranged tie js)))"
proof -
  define n where "n = nat (refresh_row_limit p - int (length (filter (\<lambda>j. cachePriority p t j < 3) js)))"
  define s where "s = sort_key cache_loadedTime
                        (filter (\<lambda>j. cachePriority p t j = 3) (rearranged tie js))"
  define u where "u = filter (\<lambda>j. cachePriority p t j < 3) (window_order p t tie js)"
  have rl: "row_limit p t tie js = u @ take n s"
    unfolding n_def s_def u_def
    by (simp only: row_limit_positive [OF assms(1)] soft_refresh_in_window_order [OF assms(2)])
  have "\<forall>j \<in> set u. \<not> cachePriority p t j = 3"
    unfolding u_def by auto
  then have a: "filter (\<lambda>j. cachePriority p t j = 3) u = []"
    by (simp only: filter_empty_conv) 
  have "\<forall>j \<in> set s. cachePriority p t j = 3"
    unfolding s_def by simp
  moreover have "set (take n s) \<subseteq> set s" by (rule set_take_subset)
  ultimately have "\<forall>j \<in> set (take n s). cachePriority p t j = 3" by blast
  then have b: "filter (\<lambda>j. cachePriority p t j = 3) (take n s) = take n s"
    by (simp only: filter_id_conv)
  show ?thesis
    unfolding n_def [symmetric] s_def [symmetric]
    by (simp only: rl filter_append a b append_Nil)
qed

lemma urgent_admitted:
  "filter (\<lambda>j. cachePriority p t j < 3) (row_limit p t tie js)
     = (if refresh_row_limit p > 0 then filter (\<lambda>j. cachePriority p t j < 3) (window_order p t tie js)
        else filter (\<lambda>j. cachePriority p t j < 3) js)"
proof (cases "refresh_row_limit p > 0")
  case True
  define n where "n = nat (refresh_row_limit p - int (length (filter (\<lambda>j. cachePriority p t j < 3) js)))"
  define v where "v = filter (\<lambda>j. \<not> cachePriority p t j < 3) (window_order p t tie js)"
  define u where "u = filter (\<lambda>j. cachePriority p t j < 3) (window_order p t tie js)"
  have rl: "row_limit p t tie js = u @ take n v"
    unfolding n_def v_def u_def by (rule row_limit_positive [OF True])
  have "\<forall>j \<in> set v. \<not> cachePriority p t j < 3"
    unfolding v_def by simp
  moreover have "set (take n v) \<subseteq> set v" by (rule set_take_subset)
  ultimately have "\<forall>j \<in> set (take n v). \<not> cachePriority p t j < 3" by blast
  then have b: "filter (\<lambda>j. cachePriority p t j < 3) (take n v) = []"
    by (simp only: filter_empty_conv)
  have "\<forall>j \<in> set u. cachePriority p t j < 3"
    unfolding u_def by simp
  then have a: "filter (\<lambda>j. cachePriority p t j < 3) u = u"
    by (simp only: filter_id_conv)
  have "filter (\<lambda>j. cachePriority p t j < 3) (row_limit p t tie js) = u"
    by (simp only: rl filter_append a b append_Nil2)
  with True show ?thesis by (simp only: u_def if_True)
next
  case False
  then show ?thesis by (simp add: row_limit_def)
qed

lemma length_filter_urgent:
  assumes "\<forall>j \<in> set js. f j = 1 \<or> f j = 2 \<or> f j = (3::int)"
  shows "length (filter (\<lambda>j. f j < 3) js)
           = length (filter (\<lambda>j. f j = 1) js) + length (filter (\<lambda>j. f j = 2) js)"
  using assms by (induction js) auto

lemma ex_hash_values_b:
  "ex_hash [Some (IntV 4), Some (StrV ''z'')] = 40487"
  "ex_hash [Some (IntV 5), Some (StrV ''w'')] = 40518"
  by (simp_all add: ex_hash_def)

lemma ex_joined_b:
  assumes "key_cols p = [''a'']"
  shows "joined_df_incoming p ex_spark ex_df_b ex_cache_b = [ex_j1, ex_j2, ex_j4, ex_j5]"
  using assms
  by (simp add: joined_df_incoming_def filter_null_keys_def join_row_def cache_matches_def
        sql_key_eq_def not_null_def hash_star_def hash_cols_def select_row_def col_def
        ex_df_b_def ex_cache_b_def ex_hash_values ex_hash_values_b ex_j1_def ex_j2_def ex_j4_def ex_j5_def)

lemma ex_priorities:
  assumes "max_ttl p = 100" "refresh_ttl p = 10"
  shows "cachePriority p 1000 ex_j1 = 3" "cachePriority p 1000 ex_j2 = 3"
        "cachePriority p 1000 ex_j4 = 2" "cachePriority p 1000 ex_j5 = 1"
  using assms
  by (simp_all add: cachePriority_def lived_def ex_j1_def ex_j2_def ex_j4_def ex_j5_def)

lemma ex_window_order:
  assumes "max_ttl p = 100" "refresh_ttl p = 10"
  shows "window_order p 1000 (\<lambda>js. js) [ex_j1, ex_j2, ex_j4, ex_j5] = [ex_j5, ex_j4, ex_j2, ex_j1]"
  by (simp add: window_order_def ex_priorities [OF assms] less_eq_prod_def)
     (simp add: ex_j1_def ex_j2_def ex_j4_def ex_j5_def)

lemma ex_params_b_simps:
  "key_cols ex_params_b3 = [''a'']" "max_ttl ex_params_b3 = 100" "refresh_ttl ex_params_b3 = 10"
  "refresh_row_limit ex_params_b3 = 3"
  "max_ttl ex_params_ttl = 100" "refresh_ttl ex_params_ttl = 10"
  "refresh_row_limit ex_params_ttl = 1"
  by (simp_all add: ex_params_b3_def ex_params_ttl_def ex_params_def)

lemma ex_prioritised_b:
  assumes "key_cols p = [''a'']" "max_ttl p = 100" "refresh_ttl p = 10"
  shows "prioritised p 1000 (joined_df_incoming p ex_spark ex_df_b ex_cache_b)
           = [ex_j1, ex_j2, ex_j4, ex_j5]"
  by (simp add: prioritised_def ex_joined_b [OF assms(1)] ex_priorities [OF assms(2,3)])

lemma ex_soft_refresh_sorted:
  assumes "max_ttl p = 100" "refresh_ttl p = 10"
  shows "sort_key cache_loadedTime
           (filter (\<lambda>j. cachePriority p 1000 j = 3) [ex_j1, ex_j2, ex_j4, ex_j5]) = [ex_j2, ex_j1]"
  by (simp add: ex_priorities [OF assms]) (simp add: ex_j1_def ex_j2_def)

lemma ex_loadedTime_order: "\<not> cache_loadedTime ex_j1 \<le> cache_loadedTime ex_j2"
  by (simp add: ex_j1_def ex_j2_def)

lemma ex_row_limit_b:
  assumes "max_ttl p = 100" "refresh_ttl p = 10"
  shows "refresh_row_limit p = 1 \<Longrightarrow> row_limit p 1000 (\<lambda>js. js) [ex_j1, ex_j2, ex_j4, ex_j5] = [ex_j5, ex_j4]"
    and "refresh_row_limit p = 3 \<Longrightarrow> row_limit p 1000 (\<lambda>js. js) [ex_j1, ex_j2, ex_j4, ex_j5] = [ex_j5, ex_j4, ex_j2]"
  by (simp_all add: row_limit_def ex_window_order [OF assms] row_number_def ex_priorities [OF assms])

lemma ex_filtered_b:
  "filtered_df ex_params_ttl ex_spark 1000 ex_df_b ex_cache_b = [ex_j5, ex_j4]"
  "filtered_df ex_params_b3 ex_spark 1000 ex_df_b ex_cache_b = [ex_j5, ex_j4, ex_j2]"
  by (simp_all add: filtered_df_def ex_prioritised_b ex_row_limit_b ex_params_b_simps
        ex_params_ttl_simps)

section \<open>Facts about the merge\<close>

lemma merge_upsert_result:
  assumes "merge_upsert source target = Inr tbl"
  shows "tbl = map (\<lambda>t. case source_matches source t of [] \<Rightarrow> t | s # _ \<Rightarrow> s) target
               @ filter (\<lambda>s. \<not> list_ex (\<lambda>t. sql_key_eq (ckey s) (ckey t)) target) source"
  using assms by (simp add: merge_upsert_def split: if_splits)

lemma source_matches_Cons:
  assumes "source_matches source t = s # ss"
  shows "s \<in> set source" and "ckey s = ckey t" and "not_null (ckey t)"
proof -
  have "s \<in> set (source_matches source t)" using assms by simp
  then show "s \<in> set source" and "ckey s = ckey t" and "not_null (ckey t)"
    by (auto simp: source_matches_def sql_key_eq_def)
qed

lemma source_matches_empty:
  "source_matches source t = [] \<longleftrightarrow> (\<forall>s \<in> set source. \<not> sql_key_eq (ckey s) (ckey t))"
  by (simp add: source_matches_def filter_empty_conv)

lemma merge_upsert_origin:
  assumes "merge_upsert source target = Inr tbl" and "c \<in> set tbl"
  shows "c \<in> set source \<or> (c \<in> set target \<and> source_matches source c = [])"
proof -
  from assms(2) merge_upsert_result [OF assms(1)]
  consider t where "t \<in> set target" "c = (case source_matches source t of [] \<Rightarrow> t | s # _ \<Rightarrow> s)"
    | "c \<in> set source" by auto
  then show ?thesis
  proof cases
    case 1
    show ?thesis
    proof (cases "source_matches source t")
      case Nil
      with 1 show ?thesis by simp
    next
      case (Cons s ss)
      with 1 source_matches_Cons(1) [OF Cons] show ?thesis by simp
    qed
  next
    case 2
    then show ?thesis by simp
  qed
qed

lemma merge_upsert_untouched:
  assumes "merge_upsert source target = Inr tbl" and "c \<in> set target"
    and "source_matches source c = []"
  shows "c \<in> set tbl"
proof -
  have "c = (case source_matches source c of [] \<Rightarrow> c | s # _ \<Rightarrow> s)"
    using assms(3) by simp
  with assms(2) have "c \<in> set (map (\<lambda>t. case source_matches source t of [] \<Rightarrow> t | s # _ \<Rightarrow> s) target)"
    by (metis (no_types, lifting) image_eqI set_map)
  then show ?thesis
    by (simp add: merge_upsert_result [OF assms(1)])
qed

lemma merge_upsert_present:
  assumes "merge_upsert source target = Inr tbl" and "s \<in> set source"
  shows "\<exists>c \<in> set tbl. c \<in> set source \<and> ckey c = ckey s"
proof (cases "list_ex (\<lambda>t. sql_key_eq (ckey s) (ckey t)) target")
  case True
  then obtain t where t: "t \<in> set target" "sql_key_eq (ckey s) (ckey t)"
    by (auto simp: list_ex_iff)
  with assms(2) have "s \<in> set (source_matches source t)"
    by (simp add: source_matches_def)
  then obtain s' ss where m: "source_matches source t = s' # ss"
    by (cases "source_matches source t") auto
  have "(case source_matches source t of [] \<Rightarrow> t | s # _ \<Rightarrow> s) = s'"
    by (simp add: m)
  with t(1) have "s' \<in> set (map (\<lambda>t. case source_matches source t of [] \<Rightarrow> t | s # _ \<Rightarrow> s) target)"
    by (metis (no_types, lifting) image_eqI set_map)
  then have "s' \<in> set tbl"
    by (simp add: merge_upsert_result [OF assms(1)])
  moreover have "s' \<in> set source" "ckey s' = ckey s"
    using source_matches_Cons(1,2) [OF m] t(2) by (simp_all add: sql_key_eq_def)
  ultimately show ?thesis by blast
next
  case False
  with assms(2) have "s \<in> set tbl"
    by (simp add: merge_upsert_result [OF assms(1)])
  with assms(2) show ?thesis by blast
qed

lemma merge_upsert_replaced:
  assumes "merge_upsert source target = Inr tbl" and "c \<in> set tbl"
    and "s \<in> set source" and "ckey s = ckey c" and "not_null (ckey c)"
  shows "c \<in> set source"
proof -
  from assms(3,4,5) have "source_matches source c \<noteq> []"
    by (auto simp: source_matches_empty sql_key_eq_def)
  with merge_upsert_origin [OF assms(1,2)] show ?thesis by blast
qed

section \<open>The steps of a \<open>save\<close> call\<close>


lemma load_cache_None:
  assumes "load_cache u s = (None, s')"
  shows "merge_upsert u (cache_table s) = Inr (cache_table s')"
  using assms by (auto simp: load_cache_def Let_def split: sum.splits)


lemma write_branch_None:
  assumes "write_branch p h clk in_cols dw s = (None, s')"
  shows "(dw = None \<and> cache_table s' = cache_table s)
   \<or> (\<exists>w' upd. dw = Some w'
        \<and> prepare_written_cache_update p h (written_timestamp clk) w' in_cols = Inr upd
        \<and> merge_upsert upd (cache_table s) = Inr (cache_table s'))"
proof (cases dw)
  case None
  with assms show ?thesis by (simp add: write_branch_def)
next
  case (Some w')
  show ?thesis
  proof (cases "prepare_written_cache_update p h (written_timestamp clk) w' in_cols")
    case (Inl e)
    with Some assms show ?thesis by (simp add: write_branch_def Let_def)
  next
    case (Inr upd)
    let ?s1 = "s\<lparr>n_rows_last_write := length (rows w'),
                   n_rows_all_writes := n_rows_all_writes s + length (rows w')\<rparr>"
    have "load_cache upd ?s1 = (None, s')"
      using Some Inr assms by (simp add: write_branch_def Let_def)
    from load_cache_None [OF this] Some Inr show ?thesis by simp
  qed
qed


lemma delete_branch_None:
  assumes "delete_branch ops clk d s = (None, s')"
  shows "(delete_operation ops d = Inr None \<and> cache_table s' = cache_table s)
   \<or> (\<exists>d'. delete_operation ops d = Inr (Some d')
        \<and> merge_upsert (prepare_deleted_cache_update (deleted_timestamp clk) d') (cache_table s)
             = Inr (cache_table s'))"
proof (cases "delete_operation ops d")
  case (Inl e)
  with assms show ?thesis by (simp add: delete_branch_def Let_def)
next
  case (Inr dd)
  show ?thesis
  proof (cases dd)
    case None
    with Inr assms show ?thesis by (auto simp: delete_branch_def Let_def)
  next
    case (Some d')
    let ?s1 = "s\<lparr>calls := calls s @ [DeleteOperation d]\<rparr>"
    have "load_cache (prepare_deleted_cache_update (deleted_timestamp clk) d') ?s1 = (None, s')"
      using Inr Some assms by (simp add: delete_branch_def Let_def)
    from load_cache_None [OF this] Inr Some show ?thesis by simp
  qed
qed


text \<open>The same for a call that returns normally: both operations returned, and each
  merge that was due succeeded.\<close>

lemma save_None_table:
  fixes ops p h clk s df
  defines "res \<equiv> reduction p h clk s df"
  assumes "save ops p h clk s df = (None, s')"
  shows "\<exists>ta. ((write_operation ops (to_be_written res) = Inr None \<and> ta = cache_table s)
            \<or> (\<exists>w' upd. write_operation ops (to_be_written res) = Inr (Some w')
                  \<and> prepare_written_cache_update p h (written_timestamp clk) w' (columns df) = Inr upd
                  \<and> merge_upsert upd (cache_table s) = Inr ta))
          \<and> ((delete_operation ops (to_be_deleted res) = Inr None \<and> cache_table s' = ta)
            \<or> (\<exists>d'. delete_operation ops (to_be_deleted res) = Inr (Some d')
                  \<and> merge_upsert (prepare_deleted_cache_update (deleted_timestamp clk) d') ta
                       = Inr (cache_table s')))"
proof -
  have keys: "set (key_cols p) \<subseteq> set (columns df)"
    using assms(2) by (cases "set (key_cols p) \<subseteq> set (columns df)") (simp_all add: save_def)
  let ?s1 = "s\<lparr>calls := calls s @ [WriteOperation (to_be_written res)]\<rparr>"
  obtain dw where dw: "write_operation ops (to_be_written res) = Inr dw"
    using assms(2) keys
    by (cases "write_operation ops (to_be_written res)") (simp_all add: save_def Let_def res_def)
  obtain r s2 where wb: "write_branch p h clk (columns df) dw ?s1 = (r, s2)"
    by (cases "write_branch p h clk (columns df) dw ?s1")
  have r: "r = None"
    using assms(2) keys dw wb by (cases r) (simp_all add: save_def Let_def res_def)
  have sv: "delete_branch ops clk (to_be_deleted res) s2 = (None, s')"
    using assms(2) keys dw wb r by (simp add: save_def Let_def res_def)
  from write_branch_None [OF wb [unfolded r]] dw
  have ta: "(write_operation ops (to_be_written res) = Inr None \<and> cache_table s2 = cache_table s)
            \<or> (\<exists>w' upd. write_operation ops (to_be_written res) = Inr (Some w')
                  \<and> prepare_written_cache_update p h (written_timestamp clk) w' (columns df) = Inr upd
                  \<and> merge_upsert upd (cache_table s) = Inr (cache_table s2))"
    by auto
  from delete_branch_None [OF sv] ta show ?thesis by blast
qed

section \<open>Calls made by \<open>save\<close>\<close>

lemma delete_branch_calls:
  "\<exists>new. calls (snd (delete_branch ops clk d s)) = calls s @ new
         \<and> (\<forall>x. DeleteOperation x \<in> set new \<longrightarrow> x = d)"
proof -
  have "calls (snd (delete_branch ops clk d s)) = calls s @ [DeleteOperation d]
      \<or> (\<exists>u. calls (snd (delete_branch ops clk d s)) = calls s @ [DeleteOperation d, LoadCache u])"
    by (auto simp: delete_branch_def Let_def calls_load_cache split: sum.splits option.splits)
  then show ?thesis by auto
qed

lemma write_branch_calls:
  "\<exists>new. calls (snd (write_branch p h clk in_cols dw s)) = calls s @ new
         \<and> (\<forall>x. DeleteOperation x \<notin> set new)"
proof -
  have "calls (snd (write_branch p h clk in_cols dw s)) = calls s
      \<or> (\<exists>u. calls (snd (write_branch p h clk in_cols dw s)) = calls s @ [LoadCache u])"
    by (auto simp: write_branch_def Let_def calls_load_cache split: sum.splits option.splits)
  then show ?thesis by auto
qed



section \<open>Keys of the rows to write\<close>

lemma drop_dups_subset: "set (drop_dups seen f xs) \<subseteq> set xs"
  by (induction xs arbitrary: seen) auto

lemma dropDuplicates_simps:
  "columns (dropDuplicates ks df) = columns df"
  "set (rows (dropDuplicates ks df)) \<subseteq> set (rows df)"
  by (simp_all add: dropDuplicates_def drop_dups_subset)




section \<open>Keys without an active cache row\<close>

lemma in_extract_cache:
  "c \<in> set (extract_cache tbl) \<longleftrightarrow>
     c \<in> set tbl \<and> deletedTime c = None \<and> rowHash c \<noteq> None \<and> loadedTime c \<noteq> None"
  by (auto simp: extract_cache_def)

lemma prepare_deleted_inactive:
  "c \<in> set (prepare_deleted_cache_update ts d) \<Longrightarrow> deletedTime c = Some ts"
  by (auto simp: prepare_deleted_cache_update_def)

lemma prepare_deleted_keys:
  "ckey ` set (prepare_deleted_cache_update ts d) = ckey ` set d"
  by (auto simp: prepare_deleted_cache_update_def image_iff)






lemma join_row_unmatched:
  assumes "\<forall>c \<in> set cache. ckey c \<noteq> select_row cs (key_cols p) r"
  shows "join_row p h cs cache r =
           [\<lparr>payload = r, df_rowHash = hash_star h cs r, cache_loadedTime = None, hashMatch = None\<rparr>]"
proof -
  from assms have "cache_matches p cs cache r = []"
    by (auto simp: cache_matches_def sql_key_eq_def filter_empty_conv)
  then show ?thesis by (simp add: join_row_def)
qed









lemma ex_dedup:
  "dropDuplicates [''a''] ex_df = ex_df" "dropDuplicates [''a''] ex_df_3 = ex_df_3"
  by (simp_all add: dropDuplicates_def ex_df_def ex_df_3_def select_row_def col_def)







section \<open>One row per key after \<open>dropDuplicates\<close>\<close>

lemma drop_dups_keys:
  "distinct (map f (drop_dups seen f xs)) \<and> set (map f (drop_dups seen f xs)) \<inter> set seen = {}"
proof (induction xs arbitrary: seen)
  case Nil
  then show ?case by simp
next
  case (Cons x xs)
  show ?case
  proof (cases "f x \<in> set seen")
    case True
    with Cons.IH [of seen] show ?thesis by simp
  next
    case False
    from Cons.IH [of "f x # seen"]
    have d: "distinct (map f (drop_dups (f x # seen) f xs))"
      and i: "set (map f (drop_dups (f x # seen) f xs)) \<inter> set (f x # seen) = {}"
      by blast+
    from i have "f x \<notin> set (map f (drop_dups (f x # seen) f xs))"
      and "set (map f (drop_dups (f x # seen) f xs)) \<inter> set seen = {}"
      by auto
    with d False show ?thesis by simp
  qed
qed

lemma dropDuplicates_unique:
  assumes "r1 \<in> set (rows (dropDuplicates ks df))" and "r2 \<in> set (rows (dropDuplicates ks df))"
    and "select_row (columns df) ks r1 = select_row (columns df) ks r2"
  shows "r1 = r2"
proof -
  have "distinct (map (select_row (columns df) ks) (rows (dropDuplicates ks df)))"
    using drop_dups_keys [of "select_row (columns df) ks" "[]" "rows df"]
    by (simp add: dropDuplicates_def)
  then have "inj_on (select_row (columns df) ks) (set (rows (dropDuplicates ks df)))"
    by (simp add: distinct_map)
  with assms show ?thesis by (auto dest: inj_onD)
qed

section \<open>The cache rows prepared from the written rows\<close>

lemma written_columns_set:
  "set (key_cols p) \<subseteq> set (written_columns p h df)"
  "set (columns df) \<subseteq> set (written_columns p h df)"
  by (auto simp: written_columns_def)

lemma hash_of_written_row:
  "hash_cols h (written_columns p h df) (columns df)
     (select_row (columns df) (written_columns p h df) r) = hash_star h (columns df) r"
  by (simp add: hash_cols_def hash_star_def select_row_select_row written_columns_set)

lemma in_prepare_written:
  assumes "prepare_written_cache_update p h ts w in_cols = Inr upd"
  shows "u \<in> set upd \<longleftrightarrow>
     (\<exists>x \<in> set (rows w). u = \<lparr>ckey = select_row (columns w) (key_cols p) x,
                                rowHash = Some (hash_cols h (columns w) in_cols x),
                                loadedTime = Some ts, deletedTime = None,
                                cache_ids = select_row (columns w) (cache_id_cols p) x\<rparr>)"
  using assms by (auto simp: prepare_written_cache_update_def split: if_splits)

text \<open>When the frame \<open>w'\<close> returned by the write operation, cut down to the columns of the
  frame \<open>w\<close> it was given, has the rows of \<open>w\<close>, the key and the hash prepared for a row
  of \<open>w'\<close> are those of the row of \<open>w\<close> it stands for.\<close>

lemma prepared_key_and_hash:
  assumes "set ks \<subseteq> set (columns w)" and "set cs \<subseteq> set (columns w)"
    and "select_row (columns w') (columns w) x = y"
  shows "select_row (columns w') ks x = select_row (columns w) ks y"
    and "hash_cols h (columns w') cs x = hash_cols h (columns w) cs y"
proof -
  have k: "select_row (columns w) ks (select_row (columns w') (columns w) x)
             = select_row (columns w') ks x"
    by (rule select_row_select_row [OF assms(1)])
  have c: "select_row (columns w) cs (select_row (columns w') (columns w) x)
             = select_row (columns w') cs x"
    by (rule select_row_select_row [OF assms(2)])
  show "select_row (columns w') ks x = select_row (columns w) ks y"
    using k assms(3) by simp
  show "hash_cols h (columns w') cs x = hash_cols h (columns w) cs y"
    using c assms(3) by (simp add: hash_cols_def)
qed

lemma columns_to_be_written:
  "columns (to_be_written (discard_non_new_rows_against_cache p h t df cache)) = written_columns p h df"
  by (simp add: discard_non_new_rows_against_cache_def)

lemma prepared_from_written:
  assumes prep: "prepare_written_cache_update p h ts w' (columns df) = Inr upd"
    and same: "select_row (columns w')
                 (columns (to_be_written (discard_non_new_rows_against_cache p h t df cache)))
                 ` set (rows w')
               = set (rows (to_be_written (discard_non_new_rows_against_cache p h t df cache)))"
    and u: "u \<in> set upd"
  shows "\<exists>j \<in> set (filtered_df p h t df cache).
           ckey u = select_row (columns df) (key_cols p) (payload j)
         \<and> rowHash u = Some (hash_star h (columns df) (payload j))
         \<and> deletedTime u = None \<and> loadedTime u \<noteq> None"
proof -
  let ?wc = "written_columns p h df"
  from u in_prepare_written [OF prep] obtain x where x: "x \<in> set (rows w')"
    and ux: "u = \<lparr>ckey = select_row (columns w') (key_cols p) x,
                  rowHash = Some (hash_cols h (columns w') (columns df) x),
                  loadedTime = Some ts, deletedTime = None,
                  cache_ids = select_row (columns w') (cache_id_cols p) x\<rparr>"
    by blast
  from x same have "select_row (columns w') ?wc x
      \<in> set (rows (to_be_written (discard_non_new_rows_against_cache p h t df cache)))"
    unfolding columns_to_be_written by blast
  then obtain j where j: "j \<in> set (filtered_df p h t df cache)"
    and y: "select_row (columns w') ?wc x = select_row (columns df) ?wc (payload j)"
    by (auto simp: rows_to_be_written)
  have wc: "?wc = columns \<lparr>columns = ?wc, rows = []\<rparr>" by simp
  have k: "select_row (columns w') (key_cols p) x
             = select_row ?wc (key_cols p) (select_row (columns df) ?wc (payload j))"
    using prepared_key_and_hash(1) [of "key_cols p" "\<lparr>columns = ?wc, rows = []\<rparr>" "columns df" w' x]
      y written_columns_set [where p = p and df = df] by simp
  have hh: "hash_cols h (columns w') (columns df) x
             = hash_cols h ?wc (columns df) (select_row (columns df) ?wc (payload j))"
    using prepared_key_and_hash(2) [of "key_cols p" "\<lparr>columns = ?wc, rows = []\<rparr>" "columns df" w' x]
      y written_columns_set [where p = p and df = df] by simp
  from k have "ckey u = select_row (columns df) (key_cols p) (payload j)"
    by (simp add: ux key_of_written_row)
  moreover from hh have "rowHash u = Some (hash_star h (columns df) (payload j))"
    by (simp add: ux hash_of_written_row)
  ultimately show ?thesis using j by (auto simp: ux)
qed

lemma written_is_prepared:
  assumes prep: "prepare_written_cache_update p h ts w' (columns df) = Inr upd"
    and same: "select_row (columns w')
                 (columns (to_be_written (discard_non_new_rows_against_cache p h t df cache)))
                 ` set (rows w')
               = set (rows (to_be_written (discard_non_new_rows_against_cache p h t df cache)))"
    and j: "j \<in> set (filtered_df p h t df cache)"
  shows "\<exists>u \<in> set upd. ckey u = select_row (columns df) (key_cols p) (payload j)"
proof -
  let ?wc = "written_columns p h df"
  from j have "select_row (columns df) ?wc (payload j)
      \<in> set (rows (to_be_written (discard_non_new_rows_against_cache p h t df cache)))"
    by (auto simp: rows_to_be_written)
  then have "select_row (columns df) ?wc (payload j)
               \<in> select_row (columns w') ?wc ` set (rows w')"
    using same [unfolded columns_to_be_written] by simp
  then obtain x where x: "x \<in> set (rows w')"
    and y: "select_row (columns w') ?wc x = select_row (columns df) ?wc (payload j)"
    by (elim imageE) simp
  let ?u = "\<lparr>ckey = select_row (columns w') (key_cols p) x,
             rowHash = Some (hash_cols h (columns w') (columns df) x),
             loadedTime = Some ts, deletedTime = None,
             cache_ids = select_row (columns w') (cache_id_cols p) x\<rparr>"
  have "?u \<in> set upd"
    unfolding in_prepare_written [OF prep] by (rule bexI [OF refl x])
  moreover have "select_row (columns w') (key_cols p) x
             = select_row ?wc (key_cols p) (select_row (columns df) ?wc (payload j))"
    using prepared_key_and_hash(1) [of "key_cols p" "\<lparr>columns = ?wc, rows = []\<rparr>" "columns df" w' x]
      y written_columns_set [where p = p and df = df] by simp
  then have "ckey ?u = select_row (columns df) (key_cols p) (payload j)"
    by (simp add: key_of_written_row)
  ultimately show ?thesis by blast
qed

text \<open>A row that the reduction does not write has a cache row of its key, and every
  active cache row of its key has its hash.\<close>

lemma unwritten_row_matches_cache:
  assumes r: "r \<in> set (rows df)" "not_null (select_row (columns df) (key_cols p) r)"
    and unwritten: "\<forall>j \<in> set (filtered_df p h t df cache). payload j \<noteq> r"
  shows "\<exists>c \<in> set cache. ckey c = select_row (columns df) (key_cols p) r"
    and "\<forall>c \<in> set cache. ckey c = select_row (columns df) (key_cols p) r
            \<and> rowHash c \<noteq> None \<and> loadedTime c \<noteq> None
           \<longrightarrow> rowHash c = Some (hash_star h (columns df) r)"
proof -
  have not1: "cachePriority p t j \<noteq> 1" if "j \<in> set (join_row p h (columns df) cache r)" for j
  proof
    assume "cachePriority p t j = 1"
    moreover from that r have "j \<in> set (joined_df_incoming p h df cache)"
      by (auto simp: in_joined_df_incoming)
    ultimately have "j \<in> set (filtered_df p h t df cache)"
      by (rule priority_one_in_filtered_df [rotated])
    with unwritten join_row_fields(1) [OF that] show False by blast
  qed
  show "\<exists>c \<in> set cache. ckey c = select_row (columns df) (key_cols p) r"
  proof (rule ccontr)
    assume "\<not> ?thesis"
    then have un: "\<forall>c \<in> set cache. ckey c \<noteq> select_row (columns df) (key_cols p) r" by blast
    have "\<lparr>payload = r, df_rowHash = hash_star h (columns df) r, cache_loadedTime = None,
           hashMatch = None\<rparr> \<in> set (join_row p h (columns df) cache r)"
      by (simp add: join_row_unmatched [OF un])
    from not1 [OF this] show False by (simp add: cachePriority_def)
  qed
  show "\<forall>c \<in> set cache. ckey c = select_row (columns df) (key_cols p) r
            \<and> rowHash c \<noteq> None \<and> loadedTime c \<noteq> None
           \<longrightarrow> rowHash c = Some (hash_star h (columns df) r)"
  proof (intro ballI impI)
    fix c assume c: "c \<in> set cache"
      and a: "ckey c = select_row (columns df) (key_cols p) r
            \<and> rowHash c \<noteq> None \<and> loadedTime c \<noteq> None"
    then obtain ch lt where ch: "rowHash c = Some ch" and lt: "loadedTime c = Some lt" by auto
    from c a r(2) have "c \<in> set (cache_matches p (columns df) cache r)"
      by (simp add: cache_matches_def sql_key_eq_def)
    then have "\<lparr>payload = r, df_rowHash = hash_star h (columns df) r,
                cache_loadedTime = loadedTime c,
                hashMatch = map_option (\<lambda>ch. hash_star h (columns df) r = ch) (rowHash c)\<rparr>
                 \<in> set (join_row p h (columns df) cache r)"
      by (auto simp: join_row_def Let_def)
    from not1 [OF this] have "hash_star h (columns df) r = ch"
      by (auto simp: cachePriority_def ch lt split: if_splits)
    with ch show "rowHash c = Some (hash_star h (columns df) r)" by simp
  qed
qed

text \<open>With both time limits disabled, a frame whose rows all have a cache row of their
  key, and only cache rows with their hash and a loaded time, is reduced to nothing.\<close>

lemma up_to_date_rows_not_written:
  assumes ttl: "max_ttl p \<le> 0" "refresh_ttl p \<le> 0"
    and good: "\<forall>r \<in> set (rows df). not_null (select_row (columns df) (key_cols p) r) \<longrightarrow>
        (\<exists>c \<in> set cache. ckey c = select_row (columns df) (key_cols p) r)
        \<and> (\<forall>c \<in> set cache. ckey c = select_row (columns df) (key_cols p) r
              \<longrightarrow> rowHash c = Some (hash_star h (columns df) r) \<and> loadedTime c \<noteq> None)"
  shows "\<forall>j \<in> set (joined_df_incoming p h df cache). cachePriority p t j = 1000"
    and "rows (to_be_written (discard_non_new_rows_against_cache p h t df cache)) = []"
proof -
  show all: "\<forall>j \<in> set (joined_df_incoming p h df cache). cachePriority p t j = 1000"
  proof
    fix j assume "j \<in> set (joined_df_incoming p h df cache)"
    then obtain r where r: "r \<in> set (rows df)" "not_null (select_row (columns df) (key_cols p) r)"
      and j: "j \<in> set (join_row p h (columns df) cache r)"
      by (auto simp: in_joined_df_incoming)
    from good r obtain c0 where c0: "c0 \<in> set cache" "ckey c0 = select_row (columns df) (key_cols p) r"
      by blast
    with r(2) have "c0 \<in> set (cache_matches p (columns df) cache r)"
      by (simp add: cache_matches_def sql_key_eq_def)
    then have ne: "cache_matches p (columns df) cache r \<noteq> []" by auto
    with j obtain c where c: "c \<in> set (cache_matches p (columns df) cache r)"
      and jc: "j = \<lparr>payload = r, df_rowHash = hash_star h (columns df) r,
                    cache_loadedTime = loadedTime c,
                    hashMatch = map_option (\<lambda>ch. hash_star h (columns df) r = ch) (rowHash c)\<rparr>"
      by (auto simp: join_row_def Let_def)
    from c have "c \<in> set cache" "ckey c = select_row (columns df) (key_cols p) r"
      by (auto simp: cache_matches_def sql_key_eq_def)
    with good r have "rowHash c = Some (hash_star h (columns df) r)" "loadedTime c \<noteq> None"
      by blast+
    then show "cachePriority p t j = 1000"
      using ttl by (auto simp: jc cachePriority_def)
  qed
  then have "prioritised p t (joined_df_incoming p h df cache) = []"
    by (simp add: prioritised_def filter_empty_conv)
  then have "filtered_df p h t df cache = []"
    by (simp add: filtered_df_def row_limit_def window_order_def row_number_def)
  then show "rows (to_be_written (discard_non_new_rows_against_cache p h t df cache)) = []"
    by (simp add: rows_to_be_written)
qed

lemma merge_makes_cached_with_hash:
  assumes m: "merge_upsert upd tgt = Inr ta"
    and u: "u \<in> set upd" "ckey u = k" and nn: "not_null k"
    and all: "\<forall>u \<in> set upd. ckey u = k \<longrightarrow>
                rowHash u = Some rh \<and> deletedTime u = None \<and> loadedTime u \<noteq> None"
  shows "cached_with_hash k rh ta"
proof -
  from merge_upsert_present [OF m u(1)] obtain c where c: "c \<in> set ta" "c \<in> set upd" "ckey c = k"
    using u(2) by auto
  with all have "c \<in> set (extract_cache ta)" by (simp add: in_extract_cache)
  with c(3) have ex: "\<exists>c \<in> set (extract_cache ta). ckey c = k" by blast
  have "\<forall>c \<in> set (extract_cache ta). ckey c = k \<longrightarrow> rowHash c = Some rh"
  proof (intro ballI impI)
    fix c assume c: "c \<in> set (extract_cache ta)" and ck: "ckey c = k"
    then have "c \<in> set ta" by (simp add: in_extract_cache)
    from merge_upsert_replaced [OF m this u(1)] u(2) ck nn have "c \<in> set upd" by simp
    with all ck show "rowHash c = Some rh" by blast
  qed
  with ex show ?thesis by (simp add: cached_with_hash_def)
qed

lemma merge_keeps_other_keys:
  assumes m: "merge_upsert src tgt = Inr tbl" and other: "\<forall>x \<in> set src. ckey x \<noteq> k"
  shows "{c \<in> set tbl. ckey c = k} = {c \<in> set tgt. ckey c = k}"
proof (intro set_eqI iffI)
  fix c assume "c \<in> {c \<in> set tbl. ckey c = k}"
  then have c: "c \<in> set tbl" "ckey c = k" by simp_all
  from merge_upsert_origin [OF m c(1)] other c(2) show "c \<in> {c \<in> set tgt. ckey c = k}"
    by auto
next
  fix c assume "c \<in> {c \<in> set tgt. ckey c = k}"
  then have c: "c \<in> set tgt" "ckey c = k" by simp_all
  from other c(2) have "source_matches src c = []"
    by (auto simp: source_matches_empty sql_key_eq_def)
  from merge_upsert_untouched [OF m c(1) this] c(2) show "c \<in> {c \<in> set tbl. ckey c = k}"
    by simp
qed

lemma merge_keeps_cached_with_hash:
  assumes m: "merge_upsert src tgt = Inr tbl" and other: "\<forall>x \<in> set src. ckey x \<noteq> k"
  shows "cached_with_hash k rh tbl = cached_with_hash k rh tgt"
proof -
  have "{c \<in> set (extract_cache tbl). ckey c = k} = {c \<in> set (extract_cache tgt). ckey c = k}"
    using merge_keeps_other_keys [OF m other] by (auto simp: in_extract_cache)
  then have "\<And>c. (c \<in> set (extract_cache tbl) \<and> ckey c = k)
                 = (c \<in> set (extract_cache tgt) \<and> ckey c = k)"
    by blast
  then show ?thesis
    unfolding cached_with_hash_def by metis
qed

lemma filtered_df_payload:
  assumes "j \<in> set (filtered_df p h t df cache)"
  shows "payload j \<in> set (rows df)"
proof -
  from assms filtered_df_subset have "j \<in> set (joined_df_incoming p h df cache)" by blast
  then obtain r where "r \<in> set (rows df)" "j \<in> set (join_row p h (columns df) cache r)"
    by (auto simp: in_joined_df_incoming)
  with join_row_fields(1) [of j p h "columns df" cache r] show ?thesis by simp
qed

text \<open>After a call that returned normally, in which the write operation reported the
  rows it was given and the delete operation only rows it was given, every row of the
  batch (one per key) is up to date in the cache table.\<close>

lemma first_save_caches_rows:
  assumes first: "save ops p h clk s df = (None, s1)"
    and written: "write_operation ops (to_be_written (reduction p h clk s df)) = Inr (Some w')"
    and same: "select_row (columns w') (columns (to_be_written (reduction p h clk s df)))
                 ` set (rows w') = set (rows (to_be_written (reduction p h clk s df)))"
    and deleted: "\<forall>d'. delete_operation ops (to_be_deleted (reduction p h clk s df)) = Inr (Some d')
                    \<longrightarrow> set d' \<subseteq> set (to_be_deleted (reduction p h clk s df))"
    and r: "r \<in> set (rows (dropDuplicates (key_cols p) df))"
           "not_null (select_row (columns df) (key_cols p) r)"
  shows "cached_with_hash (select_row (columns df) (key_cols p) r) (hash_star h (columns df) r)
           (cache_table s1)"
proof -
  define df' where "df' = dropDuplicates (key_cols p) df"
  define cache where "cache = extract_cache (cache_table s)"
  define t where "t = now clk"
  define k where "k = select_row (columns df) (key_cols p) r"
  define rh where "rh = hash_star h (columns df) r"
  have cols: "columns df' = columns df"
    by (simp add: df'_def dropDuplicates_simps)
  have red: "reduction p h clk s df = discard_non_new_rows_against_cache p h t df' cache"
    by (simp add: reduction_def df'_def cache_def t_def)
  have r': "r \<in> set (rows df')" "not_null (select_row (columns df') (key_cols p) r)"
    using r by (simp_all add: df'_def cols [unfolded df'_def])
  have k': "k = select_row (columns df') (key_cols p) r" by (simp add: k_def cols)
  have rh': "rh = hash_star h (columns df') r" by (simp add: rh_def cols)
  from save_None_table [OF first] obtain ta where
    ta: "(write_operation ops (to_be_written (reduction p h clk s df)) = Inr None
            \<and> ta = cache_table s)
         \<or> (\<exists>w' upd. write_operation ops (to_be_written (reduction p h clk s df)) = Inr (Some w')
               \<and> prepare_written_cache_update p h (written_timestamp clk) w' (columns df) = Inr upd
               \<and> merge_upsert upd (cache_table s) = Inr ta)"
    and tb: "(delete_operation ops (to_be_deleted (reduction p h clk s df)) = Inr None
               \<and> cache_table s1 = ta)
           \<or> (\<exists>d'. delete_operation ops (to_be_deleted (reduction p h clk s df)) = Inr (Some d')
                 \<and> merge_upsert (prepare_deleted_cache_update (deleted_timestamp clk) d') ta
                      = Inr (cache_table s1))"
    by blast
  from ta written obtain upd where
    prep0: "prepare_written_cache_update p h (written_timestamp clk) w' (columns df) = Inr upd"
    and m1: "merge_upsert upd (cache_table s) = Inr ta"
    by auto
  have prep: "prepare_written_cache_update p h (written_timestamp clk) w' (columns df') = Inr upd"
    using prep0 by (simp only: cols)
  note same' = same [unfolded red]
  have upd_rows: "rowHash u = Some rh \<and> deletedTime u = None \<and> loadedTime u \<noteq> None
                  \<and> (\<exists>j \<in> set (filtered_df p h t df' cache). payload j = r)"
    if "u \<in> set upd" "ckey u = k" for u
  proof -
    from prepared_from_written [OF prep same' that(1)] obtain j where
      j: "j \<in> set (filtered_df p h t df' cache)"
         "ckey u = select_row (columns df') (key_cols p) (payload j)"
         "rowHash u = Some (hash_star h (columns df') (payload j))"
         "deletedTime u = None" "loadedTime u \<noteq> None"
      by blast
    from filtered_df_payload [OF j(1)]
    have a1: "payload j \<in> set (rows (dropDuplicates (key_cols p) df))"
      by (simp only: df'_def)
    from j(2) that(2) have a3: "select_row (columns df) (key_cols p) (payload j)
                                  = select_row (columns df) (key_cols p) r"
      by (simp only: k_def cols)
    from dropDuplicates_unique [OF a1 r(1) a3] have pj: "payload j = r" .
    from j(3) have "rowHash u = Some rh" by (simp only: pj rh')
    with j(1,4,5) pj show ?thesis by blast
  qed
  have g_ta: "cached_with_hash k rh ta"
  proof (cases "\<exists>j \<in> set (filtered_df p h t df' cache). payload j = r")
    case True
    then obtain j where j: "j \<in> set (filtered_df p h t df' cache)" "payload j = r" by blast
    from written_is_prepared [OF prep same' j(1)] j(2) obtain u where
      u: "u \<in> set upd" "ckey u = k" by (auto simp: k')
    have nn: "not_null k" using r(2) by (simp only: k_def)
    have all: "\<forall>u \<in> set upd. ckey u = k \<longrightarrow>
                rowHash u = Some rh \<and> deletedTime u = None \<and> loadedTime u \<noteq> None"
      using upd_rows by blast
    show ?thesis
      by (rule merge_makes_cached_with_hash [OF m1 u nn all])
  next
    case False
    then have unwritten: "\<forall>j \<in> set (filtered_df p h t df' cache). payload j \<noteq> r" by blast
    note b = unwritten_row_matches_cache [OF r' unwritten]
    have e: "\<exists>c \<in> set cache. ckey c = k"
      using b(1) by (simp only: k')
    have f: "\<forall>c \<in> set cache. ckey c = k \<longrightarrow> rowHash c = Some rh"
    proof (intro ballI impI)
      fix c assume c: "c \<in> set cache" and ck: "ckey c = k"
      from c have "rowHash c \<noteq> None" "loadedTime c \<noteq> None"
        by (simp_all add: cache_def in_extract_cache)
      with b(2) c ck show "rowHash c = Some rh"
        unfolding k' rh' by blast
    qed
    from e f have g0: "cached_with_hash k rh (cache_table s)"
      unfolding cached_with_hash_def cache_def by blast
    have other: "\<forall>u \<in> set upd. ckey u \<noteq> k"
      using upd_rows False by blast
    from merge_keeps_cached_with_hash [OF m1 other, of rh] g0 show ?thesis by blast
  qed
  from tb show ?thesis
  proof
    assume "delete_operation ops (to_be_deleted (reduction p h clk s df)) = Inr None
               \<and> cache_table s1 = ta"
    with g_ta show ?thesis by (simp only: k_def rh_def)
  next
    assume "\<exists>d'. delete_operation ops (to_be_deleted (reduction p h clk s df)) = Inr (Some d')
                 \<and> merge_upsert (prepare_deleted_cache_update (deleted_timestamp clk) d') ta
                      = Inr (cache_table s1)"
    then obtain d' where d': "delete_operation ops (to_be_deleted (reduction p h clk s df)) = Inr (Some d')"
      and m2: "merge_upsert (prepare_deleted_cache_update (deleted_timestamp clk) d') ta
                      = Inr (cache_table s1)" by blast
    from deleted d' have sub: "set d' \<subseteq> set (unmatched_cache p df' cache)"
      by (simp add: red to_be_deleted_eq)
    have "\<forall>x \<in> set (prepare_deleted_cache_update (deleted_timestamp clk) d'). ckey x \<noteq> k"
    proof
      fix x assume "x \<in> set (prepare_deleted_cache_update (deleted_timestamp clk) d')"
      then have "ckey x \<in> ckey ` set d'"
        using prepare_deleted_keys [of "deleted_timestamp clk" d'] by blast
      then obtain c where "c \<in> set d'" "ckey x = ckey c" by blast
      with sub have "c \<in> set (unmatched_cache p df' cache)" by blast
      then have "\<not> (\<exists>r \<in> set (rows df'). not_null (select_row (columns df') (key_cols p) r)
                     \<and> select_row (columns df') (key_cols p) r = ckey c)"
        unfolding in_unmatched_cache by (rule conjunct2)
      with r' have "ckey c \<noteq> k" unfolding k' by metis
      with \<open>ckey x = ckey c\<close> show "ckey x \<noteq> k" by simp
    qed
    from merge_keeps_cached_with_hash [OF m2 this, of rh] g_ta
    have "cached_with_hash k rh (cache_table s1)" by blast
    then show ?thesis by (simp only: k_def rh_def)
  qed
qed

lemma save_calls_write:
  assumes "set (key_cols p) \<subseteq> set (columns df)"
  shows "\<exists>rest. calls (snd (save ops p h clk s df))
                  = calls s @ WriteOperation (to_be_written (reduction p h clk s df)) # rest"
proof -
  let ?res = "reduction p h clk s df"
  let ?s1 = "s\<lparr>calls := calls s @ [WriteOperation (to_be_written ?res)]\<rparr>"
  show ?thesis
  proof (cases "write_operation ops (to_be_written ?res)")
    case (Inl e)
    with assms have "calls (snd (save ops p h clk s df))
                       = calls s @ WriteOperation (to_be_written ?res) # []"
      by (simp add: save_def Let_def)
    then show ?thesis by (rule exI)
  next
    case (Inr dw)
    obtain r s2 where wb: "write_branch p h clk (columns df) dw ?s1 = (r, s2)"
      by (cases "write_branch p h clk (columns df) dw ?s1")
    from write_branch_calls [of p h clk "columns df" dw ?s1] wb
    obtain n1 where n1: "calls s2 = calls s @ WriteOperation (to_be_written ?res) # n1"
      by auto
    show ?thesis
    proof (cases r)
      case (Some e)
      with assms Inr wb have "calls (snd (save ops p h clk s df)) = calls s2"
        by (simp add: save_def Let_def)
      with n1 show ?thesis by simp
    next
      case None
      with assms Inr wb have "save ops p h clk s df = delete_branch ops clk (to_be_deleted ?res) s2"
        by (simp add: save_def Let_def)
      with delete_branch_calls [of ops clk "to_be_deleted ?res" s2]
      obtain n2 where "calls (snd (save ops p h clk s df)) = calls s2 @ n2" by auto
      with n1 have "calls (snd (save ops p h clk s df))
                      = calls s @ WriteOperation (to_be_written ?res) # (n1 @ n2)" by simp
      then show ?thesis by (rule exI)
    qed
  qed
qed

lemma save_None_keys:
  assumes "save ops p h clk s df = (None, s')"
  shows "set (key_cols p) \<subseteq> set (columns df)"
  using assms by (cases "set (key_cols p) \<subseteq> set (columns df)") (simp_all add: save_def)

lemma ex_params_simps:
  "key_cols ex_params = [''a'']" "cache_id_cols ex_params = [''myId'']"
  "max_ttl ex_params = 0" "refresh_ttl ex_params = 0" "refresh_row_limit ex_params = 0"
  by (simp_all add: ex_params_def)

lemma ex_save_written: "save ex_ops ex_params ex_spark ex_clock ex_state ex_df = (None, ex_state_written)"
  by (simp add: ex_save_ops ex_state_written_def)

lemma ex_save_skipped:
  "save ex_none_ops ex_params ex_spark ex_clock ex_state ex_df = (None, ex_state_skipped)"
  unfolding ex_save_none by (simp add: ex_state_skipped_def ex_state_def)

lemma ex_extract_written:
  "extract_cache (cache_table ex_state_written) = [ex_update_1, ex_update_2]"
  by (simp add: extract_cache_def ex_state_written_def ex_update_1_def ex_update_2_def
        ex_deleted_3_def)

lemma ex_extract_skipped: "extract_cache (cache_table ex_state_skipped) = [ex_cache_1]"
  by (simp add: extract_cache_def ex_state_skipped_def ex_cache_1_def ex_deleted_3_def)

lemma ex_reduction_written:
  "reduction ex_params ex_spark ex_clock ex_state_written ex_df =
     \<lparr>to_be_written = \<lparr>columns = [''a'', ''b''], rows = []\<rparr>, to_be_deleted = []\<rparr>"
  unfolding reduction_def ex_extract_written ex_params_simps ex_dedup
  by (simp add: discard_non_new_rows_against_cache_def written_columns_def filtered_df_def
        row_limit_def prioritised_def joined_df_incoming_def filter_null_keys_def join_row_def
        cache_matches_def sql_key_eq_def not_null_def cachePriority_def hash_star_def
        hash_cols_def unmatched_cache_def select_row_def col_def
        ex_params_simps ex_df_simps ex_hash_values ex_update_1_def ex_update_2_def)

lemma ex_reduction_skipped:
  "reduction ex_params ex_spark ex_clock ex_state_skipped ex_df =
     \<lparr>to_be_written = ex_df, to_be_deleted = []\<rparr>"
  unfolding reduction_def ex_extract_skipped ex_params_simps ex_dedup
  by (simp add: discard_non_new_rows_against_cache_def written_columns_def filtered_df_def
        row_limit_def prioritised_def joined_df_incoming_def filter_null_keys_def join_row_def
        cache_matches_def sql_key_eq_def not_null_def cachePriority_def hash_star_def
        hash_cols_def unmatched_cache_def select_row_def col_def
        ex_params_simps ex_df_def ex_hash_def ex_cache_1_def)

lemma ex_save_skipped_again:
  "calls (snd (save ex_none_ops ex_params ex_spark ex_clock ex_state_skipped ex_df))
     = calls ex_state_skipped @ [WriteOperation ex_df, DeleteOperation [], LoadCache []]"
  using save_skipped_deleted [where tb = "[ex_cache_1, ex_deleted_3]",
     OF ex_keys ex_reduction_skipped ex_delete_ops(4) ex_delete_ops(2)]
  by (simp add: prepare_deleted_cache_update_def merge_upsert_Nil ex_state_skipped_def)

lemma ex_written_same:
  "select_row (columns ex_written) (columns ex_df) ` set (rows ex_written) = set (rows ex_df)"
  by (simp add: ex_written_def ex_df_simps select_row_def col_def)

section \<open>The hash in the reduction and in the cache\<close>

lemma changed_row_written:
  assumes "r \<in> set (rows df)"
    and "not_null (select_row (columns df) (key_cols p) r)"
    and "c \<in> set cache" and "ckey c = select_row (columns df) (key_cols p) r"
    and "rowHash c = Some ch" and "ch \<noteq> hash_star h (columns df) r"
  shows "select_row (columns df) (written_columns p h df) r
           \<in> set (rows (to_be_written (discard_non_new_rows_against_cache p h t df cache)))"
proof -
  have m: "c \<in> set (cache_matches p (columns df) cache r)"
    using assms(2,3,4) by (simp add: cache_matches_def sql_key_eq_def)
  let ?j = "\<lparr>payload = r, df_rowHash = hash_star h (columns df) r,
             cache_loadedTime = loadedTime c,
             hashMatch = map_option (\<lambda>ch. hash_star h (columns df) r = ch) (rowHash c)\<rparr>"
  from m have "?j \<in> set (join_row p h (columns df) cache r)"
    by (auto simp: join_row_def Let_def)
  with assms(1,2) have j: "?j \<in> set (joined_df_incoming p h df cache)"
    by (auto simp: in_joined_df_incoming)
  have "cachePriority p t ?j = 1"
    using assms(5,6) by (auto simp: cachePriority_def split: option.splits)
  from priority_one_in_filtered_df [OF j this] have "?j \<in> set (filtered_df p h t df cache)" .
  then show ?thesis
    by (force simp: rows_to_be_written)
qed

lemma prepare_written_succeeds:
  assumes "set (key_cols p) \<subseteq> set (columns w)" and "set cs \<subseteq> set (columns w)"
    and "set (cache_id_cols p) \<subseteq> set (columns w)"
  shows "\<exists>upd. prepare_written_cache_update p h ts w cs = Inr upd"
  using assms by (simp add: prepare_written_cache_update_def)

lemma prepare_written_fields:
  assumes "prepare_written_cache_update p h ts w cs = Inr upd"
  shows "map ckey upd = map (select_row (columns w) (key_cols p)) (rows w)"
    and "map rowHash upd = map (\<lambda>r. Some (hash h (select_row (columns w) cs r))) (rows w)"
  using assms
  by (auto simp: prepare_written_cache_update_def hash_cols_def split: if_splits)

lemma save_calls_written:
  assumes "set (key_cols p) \<subseteq> set (columns df)"
    and "write_operation ops (to_be_written (reduction p h clk s df)) = Inr (Some w)"
    and "prepare_written_cache_update p h (written_timestamp clk) w (columns df) = Inr upd"
  shows "\<exists>rest. calls (snd (save ops p h clk s df)) =
           calls s @ [WriteOperation (to_be_written (reduction p h clk s df)), LoadCache upd] @ rest"
proof -
  let ?s1 = "s\<lparr>calls := calls s @ [WriteOperation (to_be_written (reduction p h clk s df))]\<rparr>"
  let ?s2 = "?s1\<lparr>n_rows_last_write := length (rows w),
                   n_rows_all_writes := n_rows_all_writes ?s1 + length (rows w)\<rparr>"
  have wb: "write_branch p h clk (columns df) (Some w) ?s1 = load_cache upd ?s2"
    using assms(3) by (simp add: write_branch_def Let_def)
  have sv: "save ops p h clk s df =
      (case load_cache upd ?s2 of (Some e, s2) \<Rightarrow> (Some e, s2)
        | (None, s2) \<Rightarrow> delete_branch ops clk (to_be_deleted (reduction p h clk s df)) s2)"
    using assms(1,2) wb by (simp add: save_def Let_def)
  obtain r s3 where l: "load_cache upd ?s2 = (r, s3)"
    by (cases "load_cache upd ?s2")
  from l have c3: "calls s3 = calls ?s2 @ [LoadCache upd]"
    using calls_load_cache [of upd ?s2] by simp
  show ?thesis
    using sv l c3 calls_delete_branch [of ops clk "to_be_deleted (reduction p h clk s df)" s3]
    by (cases r) auto
qed

text \<open>After a call that returned normally and whose write operation returned a frame:
  every prepared row has left a row of its key in the cache table, and an active row
  of the table with the non-null key of a prepared row is a prepared row.\<close>

lemma save_stores_written:
  assumes sv: "save ops p h clk s df = (None, s')"
    and w: "write_operation ops (to_be_written (reduction p h clk s df)) = Inr (Some w)"
    and u: "prepare_written_cache_update p h (written_timestamp clk) w (columns df) = Inr upd"
  shows "\<forall>u \<in> set upd. \<exists>c \<in> set (cache_table s').
           ckey c = ckey u \<and> (c \<in> set upd \<or> deletedTime c \<noteq> None)"
    and "\<forall>c \<in> set (cache_table s').
           deletedTime c = None \<and> not_null (ckey c) \<and> ckey c \<in> ckey ` set upd \<longrightarrow> c \<in> set upd"
proof -
  let ?res = "reduction p h clk s df"
  from save_None_table [OF sv] w u obtain ta where
    m1: "merge_upsert upd (cache_table s) = Inr ta"
    and m2: "(delete_operation ops (to_be_deleted ?res) = Inr None \<and> cache_table s' = ta)
            \<or> (\<exists>d'. delete_operation ops (to_be_deleted ?res) = Inr (Some d')
                  \<and> merge_upsert (prepare_deleted_cache_update (deleted_timestamp clk) d') ta
                       = Inr (cache_table s'))"
    by auto
  show "\<forall>u \<in> set upd. \<exists>c \<in> set (cache_table s').
           ckey c = ckey u \<and> (c \<in> set upd \<or> deletedTime c \<noteq> None)"
  proof
    fix x assume "x \<in> set upd"
    from merge_upsert_present [OF m1 this] obtain c where
      c: "c \<in> set ta" "c \<in> set upd" "ckey c = ckey x" by blast
    from m2 show "\<exists>c \<in> set (cache_table s').
           ckey c = ckey x \<and> (c \<in> set upd \<or> deletedTime c \<noteq> None)"
    proof
      assume "delete_operation ops (to_be_deleted ?res) = Inr None \<and> cache_table s' = ta"
      with c show ?thesis by blast
    next
      assume "\<exists>d'. delete_operation ops (to_be_deleted ?res) = Inr (Some d')
                  \<and> merge_upsert (prepare_deleted_cache_update (deleted_timestamp clk) d') ta
                       = Inr (cache_table s')"
      then obtain d' where
        md: "merge_upsert (prepare_deleted_cache_update (deleted_timestamp clk) d') ta
               = Inr (cache_table s')" by blast
      let ?src = "prepare_deleted_cache_update (deleted_timestamp clk) d'"
      show ?thesis
      proof (cases "source_matches ?src c")
        case Nil
        from merge_upsert_untouched [OF md c(1) Nil] c(2,3) show ?thesis by blast
      next
        case (Cons s2 ss)
        from source_matches_Cons [OF Cons] have s2: "s2 \<in> set ?src" "ckey s2 = ckey c" by simp_all
        from merge_upsert_present [OF md s2(1)] obtain c' where
          c': "c' \<in> set (cache_table s')" "c' \<in> set ?src" "ckey c' = ckey s2" by blast
        from prepare_deleted_inactive [OF c'(2)] have "deletedTime c' \<noteq> None" by simp
        with c'(1,3) s2(2) c(3) show ?thesis by auto
      qed
    qed
  qed
  show "\<forall>c \<in> set (cache_table s').
           deletedTime c = None \<and> not_null (ckey c) \<and> ckey c \<in> ckey ` set upd \<longrightarrow> c \<in> set upd"
  proof (intro ballI impI)
    fix c assume c: "c \<in> set (cache_table s')"
      and a: "deletedTime c = None \<and> not_null (ckey c) \<and> ckey c \<in> ckey ` set upd"
    then obtain x where x: "x \<in> set upd" "ckey x = ckey c" by (auto simp: image_iff)
    have "c \<in> set ta"
      using m2
    proof
      assume "delete_operation ops (to_be_deleted ?res) = Inr None \<and> cache_table s' = ta"
      with c show ?thesis by simp
    next
      assume "\<exists>d'. delete_operation ops (to_be_deleted ?res) = Inr (Some d')
                  \<and> merge_upsert (prepare_deleted_cache_update (deleted_timestamp clk) d') ta
                       = Inr (cache_table s')"
      then obtain d' where
        md: "merge_upsert (prepare_deleted_cache_update (deleted_timestamp clk) d') ta
               = Inr (cache_table s')" by blast
      from merge_upsert_origin [OF md c] a prepare_deleted_inactive [of c "deleted_timestamp clk" d']
      show ?thesis by auto
    qed
    from merge_upsert_replaced [OF m1 this x] a show "c \<in> set upd" by simp
  qed
qed

lemma ex_discard_b:
  "rows (to_be_written (discard_non_new_rows_against_cache ex_params ex_spark 1000 ex_df
           [ex_cache_1_b])) = rows ex_df"
  by (simp add: reduce_defs ex_defs ex_cache_1_b_def)

lemma ex_written_simps:
  "columns ex_written = [''a'', ''b'', ''myId'']"
  "rows ex_written = [[Some (IntV 1), Some (StrV ''x''), Some (IntV 5)],
                      [Some (IntV 2), Some (StrV ''y''), Some (IntV 5)]]"
  by (simp_all add: ex_written_def)

lemma ex_write_ops_reduction:
  "write_operation ex_ops (to_be_written (reduction ex_params ex_spark ex_clock ex_state ex_df))
     = Inr (Some ex_written)"
  unfolding ex_reduction by (simp add: ex_write_ops)

section \<open>The rows that pass the budget\<close>

lemma sorted_take_drop:
  fixes f :: "'a \<Rightarrow> 'b::linorder"
  assumes "sorted (map f xs)"
  shows "\<forall>a \<in> set (take n xs). \<forall>b \<in> set (drop n xs). f a \<le> f b"
proof -
  have "sorted (map f (take n xs @ drop n xs))" using assms by simp
  then show ?thesis
    unfolding map_append sorted_append by auto
qed

lemma soft_refresh_window:
  assumes "\<forall>j \<in> set js. cachePriority p t j = 1 \<or> cachePriority p t j = 2 \<or> cachePriority p t j = 3"
  shows "filter (\<lambda>j. \<not> cachePriority p t j < 3) (window_order p t tie js)
           = filter (\<lambda>j. cachePriority p t j = 3) (window_order p t tie js)"
    and "sorted (map cache_loadedTime
           (filter (\<lambda>j. cachePriority p t j = 3) (window_order p t tie js)))"
proof -
  have "\<forall>j \<in> set (window_order p t tie js).
          cachePriority p t j = 1 \<or> cachePriority p t j = 2 \<or> cachePriority p t j = 3"
    using assms by simp
  then show eq: "filter (\<lambda>j. \<not> cachePriority p t j < 3) (window_order p t tie js)
           = filter (\<lambda>j. cachePriority p t j = 3) (window_order p t tie js)"
    by (intro filter_cong) auto
  show "sorted (map cache_loadedTime
           (filter (\<lambda>j. cachePriority p t j = 3) (window_order p t tie js)))"
    unfolding eq [symmetric] soft_refresh_in_window_order [OF assms]
    by (rule soft_refresh_order(2))
qed

lemma mset_filter_window_order:
  "mset (filter P (window_order p t tie js)) = mset (filter P js)"
  by (simp only: mset_filter mset_window_order)

lemma sorted_window_order_keys:
  "sorted (map (\<lambda>j. (cachePriority p t j, cache_loadedTime j)) (window_order p t tie js))"
  by (simp add: window_order_def)

text \<open>With a positive limit, what passes is every row of priority 1 or 2, then the
  first rows of priority 3 in the order of the window, as many as the limit leaves.\<close>

lemma filtered_df_budget:
  assumes "refresh_row_limit p > 0"
    and "js = prioritised p t (joined_df_incoming p h df cache)"
  shows "filtered_df p h t df cache =
           filter (\<lambda>j. cachePriority p t j < 3) (window_order p t (tie_order h) js)
           @ take (nat (refresh_row_limit p - int (length (filter (\<lambda>j. cachePriority p t j < 3) js))))
                  (filter (\<lambda>j. cachePriority p t j = 3) (window_order p t (tie_order h) js))"
proof -
  have pr: "\<forall>j \<in> set js. cachePriority p t j = 1 \<or> cachePriority p t j = 2
                             \<or> cachePriority p t j = 3"
    unfolding assms(2) using prioritised_priority by blast
  have "filtered_df p h t df cache = row_limit p t (tie_order h) js"
    by (simp add: filtered_df_def assms(2))
  then show ?thesis
    by (simp only: row_limit_positive [OF assms(1)] soft_refresh_window(1) [OF pr])
qed

lemma filtered_df_no_budget:
  assumes "refresh_row_limit p \<le> 0"
  shows "filtered_df p h t df cache = prioritised p t (joined_df_incoming p h df cache)"
  using assms by (simp add: filtered_df_def row_limit_def)

lemma filter_take_same:
  assumes "\<forall>x \<in> set xs. P x"
  shows "filter P (take n xs) = take n xs"
proof -
  have "set (take n xs) \<subseteq> set xs" by (rule set_take_subset)
  with assms have "\<forall>x \<in> set (take n xs). P x" by blast
  then show ?thesis by (simp only: filter_id_conv)
qed

lemma filter_take_none:
  assumes "\<forall>x \<in> set xs. \<not> P x"
  shows "filter P (take n xs) = []"
proof -
  have "set (take n xs) \<subseteq> set xs" by (rule set_take_subset)
  with assms have "\<forall>x \<in> set (take n xs). \<not> P x" by blast
  then show ?thesis by (simp only: filter_empty_conv)
qed

lemma mset_take_subset: "mset (take n xs) \<subseteq># mset xs"
proof -
  have "mset xs = mset (take n xs) + mset (drop n xs)"
    by (simp only: mset_append [symmetric] append_take_drop_id)
  then show ?thesis by simp
qed

section \<open>Two rows that tie in the window\<close>

lemma ex_joined_tie:
  assumes "key_cols p = [''a'']" and "hash h = ex_hash"
  shows "joined_df_incoming p h ex_df ex_cache_tie = [ex_j1, ex_t2]"
  using assms
  by (simp add: joined_df_incoming_def filter_null_keys_def join_row_def cache_matches_def
        sql_key_eq_def not_null_def hash_star_def hash_cols_def select_row_def col_def
        ex_df_def ex_cache_tie_def ex_hash_values ex_j1_def ex_t2_def)

lemma ex_priorities_tie:
  assumes "max_ttl p = 100" "refresh_ttl p = 10"
  shows "cachePriority p 1000 ex_j1 = 3" "cachePriority p 1000 ex_t2 = 3"
  using assms by (simp_all add: cachePriority_def lived_def ex_j1_def ex_t2_def)

lemma ex_prioritised_tie:
  assumes "hash h = ex_hash"
  shows "prioritised ex_params_ttl 1000 (joined_df_incoming ex_params_ttl h ex_df ex_cache_tie)
           = [ex_j1, ex_t2]"
  by (simp add: prioritised_def ex_joined_tie [OF _ assms] ex_params_ttl_simps
        ex_priorities_tie ex_params_b_simps)

lemma ex_tie_keys: "cache_loadedTime ex_j1 = cache_loadedTime ex_t2"
  by (simp add: ex_j1_def ex_t2_def)

lemma ex_window_order_tie:
  "window_order ex_params_ttl 1000 (\<lambda>js. js) [ex_j1, ex_t2] = [ex_j1, ex_t2]"
  "window_order ex_params_ttl 1000 rev [ex_j1, ex_t2] = [ex_t2, ex_j1]"
  by (simp_all add: window_order_def ex_priorities_tie ex_params_b_simps ex_tie_keys)

lemma ex_filtered_tie:
  "filtered_df ex_params_ttl ex_spark 1000 ex_df ex_cache_tie = [ex_j1]"
  "filtered_df ex_params_ttl ex_spark_rev 1000 ex_df ex_cache_tie = [ex_t2]"
  by (simp_all add: filtered_df_def ex_prioritised_tie row_limit_def ex_window_order_tie
        row_number_def ex_priorities_tie ex_params_b_simps)

lemma ex_written_tie:
  "rows (to_be_written (discard_non_new_rows_against_cache ex_params_ttl ex_spark 1000
           ex_df ex_cache_tie)) = [[Some (IntV 1), Some (StrV ''x'')]]"
  "rows (to_be_written (discard_non_new_rows_against_cache ex_params_ttl ex_spark_rev 1000
           ex_df ex_cache_tie)) = [[Some (IntV 2), Some (StrV ''y'')]]"
  by (simp_all add: rows_to_be_written ex_filtered_tie written_columns_def ex_df_simps
        ex_params_ttl_simps select_row_def col_def ex_j1_def ex_t2_def)

lemma ex_written_b:
  "rows (to_be_written (discard_non_new_rows_against_cache ex_params_ttl ex_spark 1000
           ex_df_b ex_cache_b))
     = [[Some (IntV 5), Some (StrV ''w'')], [Some (IntV 4), Some (StrV ''z'')]]"
  "rows (to_be_written (discard_non_new_rows_against_cache ex_params_b3 ex_spark 1000
           ex_df_b ex_cache_b))
     = [[Some (IntV 5), Some (StrV ''w'')], [Some (IntV 4), Some (StrV ''z'')],
        [Some (IntV 2), Some (StrV ''y'')]]"
  by (simp_all add: rows_to_be_written ex_filtered_b)
     (simp_all add: written_columns_def ex_df_b_def
        ex_params_ttl_simps ex_params_b_simps select_row_def col_def ex_j5_def ex_j4_def ex_j2_def)

section \<open>Keys that come back to the delete operation\<close>

























section \<open>What the row hash covers\<close>

text \<open>
  C1 (as amended). For every row of the join that comes from the incoming frame, the hash
  compared with the cached hash is the hash of the cells of all columns of the incoming
  frame, in column order, key columns included; \<open>hashMatch\<close> is \<open>NULL\<close> or the comparison
  of that hash with the hash of a cache row. So a row with a non-null key for which a
  row of the cache snapshot holds another hash than the hash of all its cells is a row
  of \<open>to_be_written\<close> of the reduction. In a \<open>save\<close> call whose write operation returns a
  frame \<open>w\<close> that has the incoming columns and the cache id columns, the call after the
  write operation is \<open>_load_cache\<close> with one cache row for each row of \<open>w\<close>, which holds
  the key of that row and the hash of the cells that row has in all columns of the
  incoming frame (\<open>save\<close> passes \<open>df.columns\<close>, which contains the key columns, as the
  columns to hash). When the call returns normally, each of these cache rows has left a
  row of its key in the cache table, one of them unless the key was marked deleted in
  the same call, and every active row of the cache table with the non-null key of one of
  them is one of them: the hash stored for a written key is a hash of all incoming
  columns.
\<close>

theorem hash_covers_all_columns:
  "(\<forall>j \<in> set (joined_df_incoming p h df cache).
       df_rowHash j = hash h (select_row (columns df) (columns df) (payload j))
     \<and> (hashMatch j = None
        \<or> (\<exists>c \<in> set cache. \<exists>ch. rowHash c = Some ch
              \<and> hashMatch j = Some (hash h (select_row (columns df) (columns df) (payload j)) = ch))))
   \<and> (\<forall>r \<in> set (rows df). \<forall>c \<in> set cache. \<forall>ch.
         not_null (select_row (columns df) (key_cols p) r)
         \<and> ckey c = select_row (columns df) (key_cols p) r
         \<and> rowHash c = Some ch \<and> ch \<noteq> hash h (select_row (columns df) (columns df) r)
       \<longrightarrow> select_row (columns df) (written_columns p h df) r
             \<in> set (rows (to_be_written (discard_non_new_rows_against_cache p h t df cache))))
   \<and> (\<forall>w. set (key_cols p) \<subseteq> set (columns df)
          \<and> write_operation ops (to_be_written (reduction p h clk s df)) = Inr (Some w)
          \<and> set (columns df) \<subseteq> set (columns w) \<and> set (cache_id_cols p) \<subseteq> set (columns w)
        \<longrightarrow> (\<exists>upd rest.
               calls (snd (save ops p h clk s df))
                 = calls s @ [WriteOperation (to_be_written (reduction p h clk s df)),
                              LoadCache upd] @ rest
             \<and> map ckey upd = map (select_row (columns w) (key_cols p)) (rows w)
             \<and> map rowHash upd
                 = map (\<lambda>r. Some (hash h (select_row (columns w) (columns df) r))) (rows w)
             \<and> (fst (save ops p h clk s df) = None \<longrightarrow>
                  (\<forall>u \<in> set upd. \<exists>c \<in> set (cache_table (snd (save ops p h clk s df))).
                      ckey c = ckey u \<and> (c \<in> set upd \<or> deletedTime c \<noteq> None))
                \<and> (\<forall>c \<in> set (cache_table (snd (save ops p h clk s df))).
                      deletedTime c = None \<and> not_null (ckey c) \<and> ckey c \<in> ckey ` set upd
                      \<longrightarrow> c \<in> set upd))))"
proof (intro conjI ballI allI impI)
  fix j
  assume "j \<in> set (joined_df_incoming p h df cache)"
  then obtain r where r: "j \<in> set (join_row p h (columns df) cache r)"
    by (auto simp: in_joined_df_incoming)
  from join_row_fields [OF r]
  show "df_rowHash j = hash h (select_row (columns df) (columns df) (payload j))"
    by (simp add: hash_star_all_columns)
  from join_row_hashMatch [OF r] join_row_fields(1) [OF r]
  show "hashMatch j = None
        \<or> (\<exists>c \<in> set cache. \<exists>ch. rowHash c = Some ch
              \<and> hashMatch j = Some (hash h (select_row (columns df) (columns df) (payload j)) = ch))"
    by (simp add: hash_star_all_columns)
next
  fix r c ch
  assume r: "r \<in> set (rows df)" and c: "c \<in> set cache"
    and a: "not_null (select_row (columns df) (key_cols p) r)
         \<and> ckey c = select_row (columns df) (key_cols p) r
         \<and> rowHash c = Some ch \<and> ch \<noteq> hash h (select_row (columns df) (columns df) r)"
  from a have "ch \<noteq> hash_star h (columns df) r"
    by (simp add: hash_star_all_columns)
  with a show "select_row (columns df) (written_columns p h df) r
             \<in> set (rows (to_be_written (discard_non_new_rows_against_cache p h t df cache)))"
    by (intro changed_row_written [OF r _ c]) simp_all
next
  fix w
  assume a: "set (key_cols p) \<subseteq> set (columns df)
          \<and> write_operation ops (to_be_written (reduction p h clk s df)) = Inr (Some w)
          \<and> set (columns df) \<subseteq> set (columns w) \<and> set (cache_id_cols p) \<subseteq> set (columns w)"
  then have "set (key_cols p) \<subseteq> set (columns w)" by blast
  from prepare_written_succeeds [OF this, of "columns df" h "written_timestamp clk"] a
  obtain upd where
    u: "prepare_written_cache_update p h (written_timestamp clk) w (columns df) = Inr upd"
    by blast
  from a have keys: "set (key_cols p) \<subseteq> set (columns df)"
    and w: "write_operation ops (to_be_written (reduction p h clk s df)) = Inr (Some w)"
    by simp_all
  from save_calls_written [OF keys w u] obtain rest where
    calls: "calls (snd (save ops p h clk s df))
              = calls s @ [WriteOperation (to_be_written (reduction p h clk s df)),
                           LoadCache upd] @ rest"
    by blast
  have stored: "fst (save ops p h clk s df) = None \<longrightarrow>
                  (\<forall>u \<in> set upd. \<exists>c \<in> set (cache_table (snd (save ops p h clk s df))).
                      ckey c = ckey u \<and> (c \<in> set upd \<or> deletedTime c \<noteq> None))
                \<and> (\<forall>c \<in> set (cache_table (snd (save ops p h clk s df))).
                      deletedTime c = None \<and> not_null (ckey c) \<and> ckey c \<in> ckey ` set upd
                      \<longrightarrow> c \<in> set upd)"
  proof
    assume "fst (save ops p h clk s df) = None"
    then have sv: "save ops p h clk s df = (None, snd (save ops p h clk s df))"
      by (simp add: prod_eq_iff)
    from save_stores_written [OF sv w u]
    show "(\<forall>u \<in> set upd. \<exists>c \<in> set (cache_table (snd (save ops p h clk s df))).
                      ckey c = ckey u \<and> (c \<in> set upd \<or> deletedTime c \<noteq> None))
                \<and> (\<forall>c \<in> set (cache_table (snd (save ops p h clk s df))).
                      deletedTime c = None \<and> not_null (ckey c) \<and> ckey c \<in> ckey ` set upd
                      \<longrightarrow> c \<in> set upd)"
      by (rule conjI)
  qed
  from calls prepare_written_fields [OF u] stored
  show "\<exists>upd rest.
               calls (snd (save ops p h clk s df))
                 = calls s @ [WriteOperation (to_be_written (reduction p h clk s df)),
                              LoadCache upd] @ rest
             \<and> map ckey upd = map (select_row (columns w) (key_cols p)) (rows w)
             \<and> map rowHash upd
                 = map (\<lambda>r. Some (hash h (select_row (columns w) (columns df) r))) (rows w)
             \<and> (fst (save ops p h clk s df) = None \<longrightarrow>
                  (\<forall>u \<in> set upd. \<exists>c \<in> set (cache_table (snd (save ops p h clk s df))).
                      ckey c = ckey u \<and> (c \<in> set upd \<or> deletedTime c \<noteq> None))
                \<and> (\<forall>c \<in> set (cache_table (snd (save ops p h clk s df))).
                      deletedTime c = None \<and> not_null (ckey c) \<and> ckey c \<in> ckey ` set upd
                      \<longrightarrow> c \<in> set upd))"
    by (intro exI conjI)
qed

text \<open>The theorem at the batch \<open>ex_df\<close>, whose key 1 is cached with another hash, and at
  the loader that reports both rows as written: the hashes of the reduction, the row
  of key 1 in \<open>to_be_written\<close>, the hashes handed to \<open>_load_cache\<close>, and the hash an
  active row of key 1 has in the cache table after the call.\<close>

theorem hash_covers_all_columns_witness:
  "map df_rowHash (joined_df_incoming ex_params ex_spark ex_df [ex_cache_1, ex_cache_3])
     = [ex_hash [Some (IntV 1), Some (StrV ''x'')], ex_hash [Some (IntV 2), Some (StrV ''y'')]]
   \<and> rowHash ex_cache_1 = Some 7
   \<and> ex_hash [Some (IntV 1), Some (StrV ''x'')] = 40394
   \<and> [Some (IntV 1), Some (StrV ''x'')]
       \<in> set (rows (to_be_written (discard_non_new_rows_against_cache ex_params ex_spark 1000
                 ex_df [ex_cache_1, ex_cache_3])))
   \<and> write_operation ex_ops (to_be_written (reduction ex_params ex_spark ex_clock ex_state ex_df))
       = Inr (Some ex_written)
   \<and> save ex_ops ex_params ex_spark ex_clock ex_state ex_df = (None, ex_state_written)
   \<and> (\<exists>upd rest.
         calls ex_state_written = [WriteOperation ex_df, LoadCache upd] @ rest
       \<and> map ckey upd = [[Some (IntV 1)], [Some (IntV 2)]]
       \<and> map rowHash upd = [Some (ex_hash [Some (IntV 1), Some (StrV ''x'')]),
                            Some (ex_hash [Some (IntV 2), Some (StrV ''y'')])]
       \<and> (\<forall>c \<in> set (cache_table ex_state_written).
             deletedTime c = None \<and> ckey c = [Some (IntV 1)]
             \<longrightarrow> rowHash c = Some (ex_hash [Some (IntV 1), Some (StrV ''x'')])))"
proof -
  note inst = hash_covers_all_columns [where p = ex_params and h = ex_spark and df = ex_df
      and cache = "[ex_cache_1, ex_cache_3]" and t = 1000 and ops = ex_ops and clk = ex_clock
      and s = ex_state]
  from inst have c1: "map df_rowHash (joined_df_incoming ex_params ex_spark ex_df [ex_cache_1, ex_cache_3])
     = [ex_hash [Some (IntV 1), Some (StrV ''x'')], ex_hash [Some (IntV 2), Some (StrV ''y'')]]"
    by (simp add: ex_joined ex_hash_values)
  have c2: "rowHash ex_cache_1 = Some 7" by (simp add: ex_cache_1_def)
  have c3: "ex_hash [Some (IntV 1), Some (StrV ''x'')] = 40394" by (rule ex_hash_values)
  from inst have "\<forall>r \<in> set (rows ex_df). \<forall>c \<in> set [ex_cache_1, ex_cache_3]. \<forall>ch.
         not_null (select_row (columns ex_df) (key_cols ex_params) r)
         \<and> ckey c = select_row (columns ex_df) (key_cols ex_params) r
         \<and> rowHash c = Some ch
         \<and> ch \<noteq> hash ex_spark (select_row (columns ex_df) (columns ex_df) r)
       \<longrightarrow> select_row (columns ex_df) (written_columns ex_params ex_spark ex_df) r
             \<in> set (rows (to_be_written (discard_non_new_rows_against_cache ex_params ex_spark
                        1000 ex_df [ex_cache_1, ex_cache_3])))"
    by (elim conjE)
  then have c4: "[Some (IntV 1), Some (StrV ''x'')]
       \<in> set (rows (to_be_written (discard_non_new_rows_against_cache ex_params ex_spark 1000
                 ex_df [ex_cache_1, ex_cache_3])))"
    by (simp add: ex_df_simps ex_params_simps ex_cache_1_def select_row_def col_def not_null_def
          written_columns_def ex_hash_values)
  note c5 = ex_write_ops_reduction
  note c6 = ex_save_written
  from inst have "\<forall>w. set (key_cols ex_params) \<subseteq> set (columns ex_df)
          \<and> write_operation ex_ops (to_be_written (reduction ex_params ex_spark ex_clock ex_state ex_df))
              = Inr (Some w)
          \<and> set (columns ex_df) \<subseteq> set (columns w) \<and> set (cache_id_cols ex_params) \<subseteq> set (columns w)
        \<longrightarrow> (\<exists>upd rest.
               calls (snd (save ex_ops ex_params ex_spark ex_clock ex_state ex_df))
                 = calls ex_state
                   @ [WriteOperation (to_be_written (reduction ex_params ex_spark ex_clock ex_state ex_df)),
                      LoadCache upd] @ rest
             \<and> map ckey upd = map (select_row (columns w) (key_cols ex_params)) (rows w)
             \<and> map rowHash upd
                 = map (\<lambda>r. Some (hash ex_spark (select_row (columns w) (columns ex_df) r))) (rows w)
             \<and> (fst (save ex_ops ex_params ex_spark ex_clock ex_state ex_df) = None \<longrightarrow>
                  (\<forall>u \<in> set upd.
                      \<exists>c \<in> set (cache_table (snd (save ex_ops ex_params ex_spark ex_clock ex_state ex_df))).
                        ckey c = ckey u \<and> (c \<in> set upd \<or> deletedTime c \<noteq> None))
                \<and> (\<forall>c \<in> set (cache_table (snd (save ex_ops ex_params ex_spark ex_clock ex_state ex_df))).
                      deletedTime c = None \<and> not_null (ckey c) \<and> ckey c \<in> ckey ` set upd
                      \<longrightarrow> c \<in> set upd)))"
    by (elim conjE)
  then have "\<exists>upd rest.
               calls (snd (save ex_ops ex_params ex_spark ex_clock ex_state ex_df))
                 = calls ex_state
                   @ [WriteOperation (to_be_written (reduction ex_params ex_spark ex_clock ex_state ex_df)),
                      LoadCache upd] @ rest
             \<and> map ckey upd = map (select_row (columns ex_written) (key_cols ex_params)) (rows ex_written)
             \<and> map rowHash upd
                 = map (\<lambda>r. Some (hash ex_spark (select_row (columns ex_written) (columns ex_df) r)))
                     (rows ex_written)
             \<and> (fst (save ex_ops ex_params ex_spark ex_clock ex_state ex_df) = None \<longrightarrow>
                  (\<forall>u \<in> set upd.
                      \<exists>c \<in> set (cache_table (snd (save ex_ops ex_params ex_spark ex_clock ex_state ex_df))).
                        ckey c = ckey u \<and> (c \<in> set upd \<or> deletedTime c \<noteq> None))
                \<and> (\<forall>c \<in> set (cache_table (snd (save ex_ops ex_params ex_spark ex_clock ex_state ex_df))).
                      deletedTime c = None \<and> not_null (ckey c) \<and> ckey c \<in> ckey ` set upd
                      \<longrightarrow> c \<in> set upd))"
    using c5 by (simp add: ex_df_simps ex_params_simps ex_written_simps)
  then obtain upd rest where
    u: "(calls (snd (save ex_ops ex_params ex_spark ex_clock ex_state ex_df))
                 = calls ex_state
                   @ [WriteOperation (to_be_written (reduction ex_params ex_spark ex_clock ex_state ex_df)),
                      LoadCache upd] @ rest) \<and> (map ckey upd = map (select_row (columns ex_written) (key_cols ex_params)) (rows ex_written)) \<and> (map rowHash upd
                 = map (\<lambda>r. Some (hash ex_spark (select_row (columns ex_written) (columns ex_df) r)))
                     (rows ex_written)) \<and> (fst (save ex_ops ex_params ex_spark ex_clock ex_state ex_df) = None \<longrightarrow>
                  (\<forall>u \<in> set upd.
                      \<exists>c \<in> set (cache_table (snd (save ex_ops ex_params ex_spark ex_clock ex_state ex_df))).
                        ckey c = ckey u \<and> (c \<in> set upd \<or> deletedTime c \<noteq> None))
                \<and> (\<forall>c \<in> set (cache_table (snd (save ex_ops ex_params ex_spark ex_clock ex_state ex_df))).
                      deletedTime c = None \<and> not_null (ckey c) \<and> ckey c \<in> ckey ` set upd
                      \<longrightarrow> c \<in> set upd))"
    by (elim exE) (rule that)
  from u have u1: "calls (snd (save ex_ops ex_params ex_spark ex_clock ex_state ex_df))
                 = calls ex_state
                   @ [WriteOperation (to_be_written (reduction ex_params ex_spark ex_clock ex_state ex_df)),
                      LoadCache upd] @ rest"
    and u2: "map ckey upd = map (select_row (columns ex_written) (key_cols ex_params)) (rows ex_written)"
    and u3: "map rowHash upd
                 = map (\<lambda>r. Some (hash ex_spark (select_row (columns ex_written) (columns ex_df) r)))
                     (rows ex_written)"
    and u4: "fst (save ex_ops ex_params ex_spark ex_clock ex_state ex_df) = None \<longrightarrow>
                  (\<forall>u \<in> set upd.
                      \<exists>c \<in> set (cache_table (snd (save ex_ops ex_params ex_spark ex_clock ex_state ex_df))).
                        ckey c = ckey u \<and> (c \<in> set upd \<or> deletedTime c \<noteq> None))
                \<and> (\<forall>c \<in> set (cache_table (snd (save ex_ops ex_params ex_spark ex_clock ex_state ex_df))).
                      deletedTime c = None \<and> not_null (ckey c) \<and> ckey c \<in> ckey ` set upd
                      \<longrightarrow> c \<in> set upd)"
    by simp_all
  have v1: "calls ex_state_written = [WriteOperation ex_df, LoadCache upd] @ rest"
    using u1 by (simp add: c6 ex_reduction) (simp add: ex_state_def)
  have v2: "map ckey upd = [[Some (IntV 1)], [Some (IntV 2)]]"
    using u2 by (simp add: ex_written_simps ex_params_simps select_row_def col_def)
  have v3: "map rowHash upd = [Some (ex_hash [Some (IntV 1), Some (StrV ''x'')]),
                            Some (ex_hash [Some (IntV 2), Some (StrV ''y'')])]"
    using u3 by (simp add: ex_written_simps ex_df_simps select_row_def col_def)
  from u4 have u5: "\<forall>c \<in> set (cache_table ex_state_written).
             deletedTime c = None \<and> not_null (ckey c) \<and> ckey c \<in> ckey ` set upd \<longrightarrow> c \<in> set upd"
    by (simp add: c6)
  have v4: "\<forall>c \<in> set (cache_table ex_state_written).
             deletedTime c = None \<and> ckey c = [Some (IntV 1)]
             \<longrightarrow> rowHash c = Some (ex_hash [Some (IntV 1), Some (StrV ''x'')])"
  proof (intro ballI impI)
    fix c assume c: "c \<in> set (cache_table ex_state_written)"
      and a: "deletedTime c = None \<and> ckey c = [Some (IntV 1)]"
    have "[Some (IntV 1)] \<in> set (map ckey upd)" unfolding v2 by simp
    then have "ckey c \<in> ckey ` set upd" using a by simp
    moreover have "not_null (ckey c)" using a by (simp add: not_null_def)
    ultimately have "c \<in> set upd" using u5 c a by blast
    then obtain i where i: "i < length upd" "upd ! i = c" by (auto simp: in_set_conv_nth)
    from v2 have len: "length upd = 2" using length_map [of ckey upd] by simp
    from i(1) len have "i = 0 \<or> i = 1" by auto
    then show "rowHash c = Some (ex_hash [Some (IntV 1), Some (StrV ''x'')])"
    proof
      assume "i = 0"
      with i len have "map rowHash upd ! 0 = rowHash c" by simp
      then show ?thesis unfolding v3 by simp
    next
      assume "i = 1"
      with i len have "map ckey upd ! 1 = ckey c" by simp
      then have "ckey c = [Some (IntV 2)]" unfolding v2 by simp
      with a show ?thesis by simp
    qed
  qed
  from v1 v2 v3 v4 have c7: "\<exists>upd rest.
         calls ex_state_written = [WriteOperation ex_df, LoadCache upd] @ rest
       \<and> map ckey upd = [[Some (IntV 1)], [Some (IntV 2)]]
       \<and> map rowHash upd = [Some (ex_hash [Some (IntV 1), Some (StrV ''x'')]),
                            Some (ex_hash [Some (IntV 2), Some (StrV ''y'')])]
       \<and> (\<forall>c \<in> set (cache_table ex_state_written).
             deletedTime c = None \<and> ckey c = [Some (IntV 1)]
             \<longrightarrow> rowHash c = Some (ex_hash [Some (IntV 1), Some (StrV ''x'')]))"
    by (intro exI conjI)
  from c1 c2 c3 c4 c5 c6 c7 show ?thesis by (intro conjI)
qed

text \<open>The claim as written fails, in the reduction and in the cache. With key column
  \<open>a\<close> and payload column \<open>b\<close>, the hashes of the reduction are not the hashes of
  column \<open>b\<close> alone, and a row whose key is cached with the hash of its cell of column
  \<open>b\<close> counts as changed and is written. After a \<open>save\<close> call that returned normally
  and whose write operation reported both rows of the batch as written, the hashes
  handed to \<open>_load_cache\<close> and found in the cache table are not the hashes of column
  \<open>b\<close> alone of the written rows.\<close>

theorem hash_over_non_key_columns_counterexample:
  "filter (\<lambda>c. c \<notin> set (key_cols ex_params)) (columns ex_df) = [''b'']
   \<and> map (hash_cols ex_spark (columns ex_df) [''b'']) (rows ex_df) = [1303, 1303]
   \<and> map df_rowHash (joined_df_incoming ex_params ex_spark ex_df [ex_cache_1, ex_cache_3])
       = [40394, 40425]
   \<and> ckey ex_cache_1_b = [Some (IntV 1)] \<and> rowHash ex_cache_1_b = Some 1303
   \<and> rows (to_be_written (discard_non_new_rows_against_cache ex_params ex_spark 1000 ex_df
             [ex_cache_1_b]))
       = [[Some (IntV 1), Some (StrV ''x'')], [Some (IntV 2), Some (StrV ''y'')]]
   \<and> write_operation ex_ops (to_be_written (reduction ex_params ex_spark ex_clock ex_state ex_df))
       = Inr (Some ex_written)
   \<and> map (hash_cols ex_spark (columns ex_written) [''b'']) (rows ex_written) = [1303, 1303]
   \<and> save ex_ops ex_params ex_spark ex_clock ex_state ex_df = (None, ex_state_written)
   \<and> calls ex_state_written
       = [WriteOperation ex_df, LoadCache [ex_update_1, ex_update_2],
          DeleteOperation [ex_cache_3], LoadCache [ex_deleted_3]]
   \<and> cache_table ex_state_written = [ex_update_1, ex_deleted_3, ex_update_2]
   \<and> map rowHash [ex_update_1, ex_update_2] = [Some 40394, Some 40425]"
proof -
  have c1: "filter (\<lambda>c. c \<notin> set (key_cols ex_params)) (columns ex_df) = [''b'']"
    by (simp add: ex_df_simps ex_params_simps)
  have c2: "map (hash_cols ex_spark (columns ex_df) [''b'']) (rows ex_df) = [1303, 1303]"
    by (simp add: ex_df_simps hash_cols_def select_row_def col_def ex_hash_values)
  have c3: "map df_rowHash (joined_df_incoming ex_params ex_spark ex_df [ex_cache_1, ex_cache_3])
       = [40394, 40425]"
    by (simp add: ex_joined)
  have c4: "ckey ex_cache_1_b = [Some (IntV 1)]" "rowHash ex_cache_1_b = Some 1303"
    by (simp_all add: ex_cache_1_b_def)
  have c5: "rows (to_be_written (discard_non_new_rows_against_cache ex_params ex_spark 1000 ex_df
             [ex_cache_1_b]))
       = [[Some (IntV 1), Some (StrV ''x'')], [Some (IntV 2), Some (StrV ''y'')]]"
    by (simp add: ex_discard_b ex_df_simps)
  have c6: "map (hash_cols ex_spark (columns ex_written) [''b'']) (rows ex_written) = [1303, 1303]"
    by (simp add: ex_written_simps hash_cols_def select_row_def col_def ex_hash_values)
  have c7: "calls ex_state_written
       = [WriteOperation ex_df, LoadCache [ex_update_1, ex_update_2],
          DeleteOperation [ex_cache_3], LoadCache [ex_deleted_3]]"
    "cache_table ex_state_written = [ex_update_1, ex_deleted_3, ex_update_2]"
    by (simp_all add: ex_state_written_def)
  have c8: "map rowHash [ex_update_1, ex_update_2] = [Some 40394, Some 40425]"
    by (simp add: ex_update_1_def ex_update_2_def)
  from c1 c2 c3 c4 c5 ex_write_ops_reduction c6 ex_save_written c7 c8 show ?thesis
    by (intro conjI)
qed

section \<open>The budget of soft refreshes\<close>

text \<open>
  C2 (as amended). Let \<open>js\<close> be the joined incoming rows of priority 1, 2 or 3, let \<open>w\<close>
  be \<open>js\<close> in the order of the window, and let \<open>n\<close> be what \<open>refresh_row_limit\<close> leaves
  once the rows of priority 1 and 2 are counted (0 if nothing is left). Then \<open>w\<close> holds
  the rows of \<open>js\<close>, each as often as \<open>js\<close> does, ascending in priority and then in
  \<open>loadedTime\<close>, whatever order Spark gives to rows that tie; so the rows of priority 3
  follow each other in \<open>w\<close> ascending in \<open>loadedTime\<close>. Every row of priority 1 or 2
  is written. With \<open>refresh_row_limit \<le> 0\<close> the rows of \<open>to_be_written\<close> are the rows
  of \<open>js\<close>, so every row of priority 3 is written. With \<open>refresh_row_limit > 0\<close> the
  rows of \<open>to_be_written\<close> are the rows of priority 1 and 2 and the first \<open>n\<close> rows of
  priority 3 in \<open>w\<close>, and none of these \<open>n\<close> rows was loaded later than a row of
  priority 3 that is left out. (A row of \<open>to_be_written\<close> is the incoming row of the
  joined row, its key columns first.)
\<close>

theorem budget_admits_oldest_soft_refresh_rows:
  assumes "js = prioritised p t (joined_df_incoming p h df cache)"
      and "w = window_order p t (tie_order h) js"
      and "n = nat (refresh_row_limit p - int (length (filter (\<lambda>j. cachePriority p t j < 3) js)))"
  shows "mset w = mset js
       \<and> sorted (map (\<lambda>j. (cachePriority p t j, cache_loadedTime j)) w)
       \<and> mset (filter (\<lambda>j. cachePriority p t j = 3) w)
           = mset (filter (\<lambda>j. cachePriority p t j = 3) js)
       \<and> sorted (map cache_loadedTime (filter (\<lambda>j. cachePriority p t j = 3) w))
       \<and> (\<forall>j \<in> set js. cachePriority p t j < 3 \<longrightarrow>
            select_row (columns df) (written_columns p h df) (payload j)
              \<in> set (rows (to_be_written (discard_non_new_rows_against_cache p h t df cache))))
       \<and> (refresh_row_limit p \<le> 0 \<longrightarrow>
            rows (to_be_written (discard_non_new_rows_against_cache p h t df cache))
              = map (\<lambda>j. select_row (columns df) (written_columns p h df) (payload j)) js)
       \<and> (refresh_row_limit p > 0 \<longrightarrow>
            rows (to_be_written (discard_non_new_rows_against_cache p h t df cache))
              = map (\<lambda>j. select_row (columns df) (written_columns p h df) (payload j))
                  (filter (\<lambda>j. cachePriority p t j < 3) w
                   @ take n (filter (\<lambda>j. cachePriority p t j = 3) w))
          \<and> mset (filter (\<lambda>j. cachePriority p t j < 3) w)
              = mset (filter (\<lambda>j. cachePriority p t j < 3) js)
          \<and> (\<forall>a \<in> set (take n (filter (\<lambda>j. cachePriority p t j = 3) w)).
              \<forall>b \<in> set (drop n (filter (\<lambda>j. cachePriority p t j = 3) w)).
                cache_loadedTime a \<le> cache_loadedTime b))"
proof -
  have pr: "\<forall>j \<in> set js. cachePriority p t j = 1 \<or> cachePriority p t j = 2
                             \<or> cachePriority p t j = 3"
    unfolding assms(1) using prioritised_priority by blast
  have c1: "mset w = mset js"
    unfolding assms(2) by (rule mset_window_order)
  have c2: "sorted (map (\<lambda>j. (cachePriority p t j, cache_loadedTime j)) w)"
    unfolding assms(2) by (rule sorted_window_order_keys)
  have c3: "mset (filter (\<lambda>j. cachePriority p t j = 3) w)
           = mset (filter (\<lambda>j. cachePriority p t j = 3) js)"
    unfolding assms(2) by (rule mset_filter_window_order)
  have c4: "sorted (map cache_loadedTime (filter (\<lambda>j. cachePriority p t j = 3) w))"
    unfolding assms(2) using pr by (rule soft_refresh_window(2))
  have c5: "\<forall>j \<in> set js. cachePriority p t j < 3 \<longrightarrow>
            select_row (columns df) (written_columns p h df) (payload j)
              \<in> set (rows (to_be_written (discard_non_new_rows_against_cache p h t df cache)))"
  proof (intro ballI impI)
    fix j assume "j \<in> set js" "cachePriority p t j < 3"
    then have "j \<in> set (row_limit p t (tie_order h) js)" by (rule row_limit_keeps)
    then have "j \<in> set (filtered_df p h t df cache)"
      by (simp add: filtered_df_def assms(1))
    then show "select_row (columns df) (written_columns p h df) (payload j)
              \<in> set (rows (to_be_written (discard_non_new_rows_against_cache p h t df cache)))"
      unfolding rows_to_be_written set_map by (rule imageI)
  qed
  have c6: "refresh_row_limit p \<le> 0 \<longrightarrow>
            rows (to_be_written (discard_non_new_rows_against_cache p h t df cache))
              = map (\<lambda>j. select_row (columns df) (written_columns p h df) (payload j)) js"
    by (simp add: rows_to_be_written filtered_df_no_budget assms(1))
  have c7: "refresh_row_limit p > 0 \<longrightarrow>
            rows (to_be_written (discard_non_new_rows_against_cache p h t df cache))
              = map (\<lambda>j. select_row (columns df) (written_columns p h df) (payload j))
                  (filter (\<lambda>j. cachePriority p t j < 3) w
                   @ take n (filter (\<lambda>j. cachePriority p t j = 3) w))"
  proof
    assume "refresh_row_limit p > 0"
    from filtered_df_budget [OF this assms(1)] show
      "rows (to_be_written (discard_non_new_rows_against_cache p h t df cache))
              = map (\<lambda>j. select_row (columns df) (written_columns p h df) (payload j))
                  (filter (\<lambda>j. cachePriority p t j < 3) w
                   @ take n (filter (\<lambda>j. cachePriority p t j = 3) w))"
      by (simp only: rows_to_be_written assms(2,3))
  qed
  have c8: "mset (filter (\<lambda>j. cachePriority p t j < 3) w)
              = mset (filter (\<lambda>j. cachePriority p t j < 3) js)"
    unfolding assms(2) by (rule mset_filter_window_order)
  have c9: "\<forall>a \<in> set (take n (filter (\<lambda>j. cachePriority p t j = 3) w)).
              \<forall>b \<in> set (drop n (filter (\<lambda>j. cachePriority p t j = 3) w)).
                cache_loadedTime a \<le> cache_loadedTime b"
    using c4 by (rule sorted_take_drop)
  from c1 c2 c3 c4 c5 c6 c7 c8 c9 show ?thesis by (intro conjI impI) simp_all
qed

text \<open>The theorem with a budget of 3, one new row, one row past \<open>max_ttl\<close> and two
  rows past \<open>refresh_ttl\<close>: the older of the two is written. And with a budget of 1
  and two rows past \<open>refresh_ttl\<close> that were loaded at the same time: one of them is
  written, the row of key 1 by a Spark that numbers tied rows as it finds them, the row
  of key 2 by one that numbers them the other way round.\<close>

theorem budget_admits_oldest_soft_refresh_rows_witness:
  "prioritised ex_params_b3 1000 (joined_df_incoming ex_params_b3 ex_spark ex_df_b ex_cache_b)
     = [ex_j1, ex_j2, ex_j4, ex_j5]
   \<and> map (cachePriority ex_params_b3 1000) [ex_j1, ex_j2, ex_j4, ex_j5] = [3, 3, 2, 1]
   \<and> window_order ex_params_b3 1000 (tie_order ex_spark) [ex_j1, ex_j2, ex_j4, ex_j5]
       = [ex_j5, ex_j4, ex_j2, ex_j1]
   \<and> refresh_row_limit ex_params_b3 = 3
   \<and> rows (to_be_written
        (discard_non_new_rows_against_cache ex_params_b3 ex_spark 1000 ex_df_b ex_cache_b))
       = map (\<lambda>j. select_row (columns ex_df_b) (written_columns ex_params_b3 ex_spark ex_df_b)
                    (payload j)) ([ex_j5, ex_j4] @ take 1 [ex_j2, ex_j1])
   \<and> rows (to_be_written
        (discard_non_new_rows_against_cache ex_params_b3 ex_spark 1000 ex_df_b ex_cache_b))
       = [[Some (IntV 5), Some (StrV ''w'')], [Some (IntV 4), Some (StrV ''z'')],
          [Some (IntV 2), Some (StrV ''y'')]]
   \<and> cache_loadedTime ex_j2 \<le> cache_loadedTime ex_j1
   \<and> prioritised ex_params_ttl 1000 (joined_df_incoming ex_params_ttl ex_spark ex_df ex_cache_tie)
       = [ex_j1, ex_t2]
   \<and> prioritised ex_params_ttl 1000 (joined_df_incoming ex_params_ttl ex_spark_rev ex_df ex_cache_tie)
       = [ex_j1, ex_t2]
   \<and> map (cachePriority ex_params_ttl 1000) [ex_j1, ex_t2] = [3, 3]
   \<and> cache_loadedTime ex_j1 = cache_loadedTime ex_t2
   \<and> refresh_row_limit ex_params_ttl = 1
   \<and> window_order ex_params_ttl 1000 (tie_order ex_spark) [ex_j1, ex_t2] = [ex_j1, ex_t2]
   \<and> window_order ex_params_ttl 1000 (tie_order ex_spark_rev) [ex_j1, ex_t2] = [ex_t2, ex_j1]
   \<and> rows (to_be_written
        (discard_non_new_rows_against_cache ex_params_ttl ex_spark 1000 ex_df ex_cache_tie))
       = map (\<lambda>j. select_row (columns ex_df) (written_columns ex_params_ttl ex_spark ex_df)
                    (payload j)) (take 1 [ex_j1, ex_t2])
   \<and> rows (to_be_written
        (discard_non_new_rows_against_cache ex_params_ttl ex_spark_rev 1000 ex_df ex_cache_tie))
       = map (\<lambda>j. select_row (columns ex_df) (written_columns ex_params_ttl ex_spark_rev ex_df)
                    (payload j)) (take 1 [ex_t2, ex_j1])
   \<and> rows (to_be_written
        (discard_non_new_rows_against_cache ex_params_ttl ex_spark 1000 ex_df ex_cache_tie))
       = [[Some (IntV 1), Some (StrV ''x'')]]
   \<and> rows (to_be_written
        (discard_non_new_rows_against_cache ex_params_ttl ex_spark_rev 1000 ex_df ex_cache_tie))
       = [[Some (IntV 2), Some (StrV ''y'')]]"
proof -
  have js: "prioritised ex_params_b3 1000 (joined_df_incoming ex_params_b3 ex_spark ex_df_b ex_cache_b)
     = [ex_j1, ex_j2, ex_j4, ex_j5]"
    by (simp add: ex_prioritised_b ex_params_b_simps)
  have pr: "map (cachePriority ex_params_b3 1000) [ex_j1, ex_j2, ex_j4, ex_j5] = [3, 3, 2, 1]"
    by (simp add: ex_priorities ex_params_b_simps)
  have w: "window_order ex_params_b3 1000 (tie_order ex_spark) [ex_j1, ex_j2, ex_j4, ex_j5]
       = [ex_j5, ex_j4, ex_j2, ex_j1]"
    by (simp add: ex_window_order ex_params_b_simps)
  have l: "refresh_row_limit ex_params_b3 = 3" by (simp add: ex_params_b_simps)
  have n: "(1::nat) = nat (refresh_row_limit ex_params_b3
             - int (length (filter (\<lambda>j. cachePriority ex_params_b3 1000 j < 3)
                      [ex_j1, ex_j2, ex_j4, ex_j5])))"
    by (simp add: ex_priorities ex_params_b_simps)
  from budget_admits_oldest_soft_refresh_rows [OF js [symmetric] w [symmetric] n]
  have a: "rows (to_be_written
        (discard_non_new_rows_against_cache ex_params_b3 ex_spark 1000 ex_df_b ex_cache_b))
       = map (\<lambda>j. select_row (columns ex_df_b) (written_columns ex_params_b3 ex_spark ex_df_b)
                    (payload j)) ([ex_j5, ex_j4] @ take 1 [ex_j2, ex_j1])"
    and b: "cache_loadedTime ex_j2 \<le> cache_loadedTime ex_j1"
    by (simp_all add: ex_priorities ex_params_b_simps)
  have js1: "prioritised ex_params_ttl 1000 (joined_df_incoming ex_params_ttl ex_spark ex_df ex_cache_tie)
       = [ex_j1, ex_t2]"
    and js2: "prioritised ex_params_ttl 1000
                (joined_df_incoming ex_params_ttl ex_spark_rev ex_df ex_cache_tie) = [ex_j1, ex_t2]"
    by (simp_all add: ex_prioritised_tie)
  have pr': "map (cachePriority ex_params_ttl 1000) [ex_j1, ex_t2] = [3, 3]"
    by (simp add: ex_priorities_tie ex_params_b_simps)
  have l': "refresh_row_limit ex_params_ttl = 1" by (simp add: ex_params_b_simps)
  have w1: "window_order ex_params_ttl 1000 (tie_order ex_spark) [ex_j1, ex_t2] = [ex_j1, ex_t2]"
    and w2: "window_order ex_params_ttl 1000 (tie_order ex_spark_rev) [ex_j1, ex_t2] = [ex_t2, ex_j1]"
    by (simp_all add: ex_window_order_tie)
  have n': "(1::nat) = nat (refresh_row_limit ex_params_ttl
             - int (length (filter (\<lambda>j. cachePriority ex_params_ttl 1000 j < 3) [ex_j1, ex_t2])))"
    by (simp add: ex_priorities_tie ex_params_b_simps)
  from budget_admits_oldest_soft_refresh_rows [OF js1 [symmetric] w1 [symmetric] n']
  have a1: "rows (to_be_written
        (discard_non_new_rows_against_cache ex_params_ttl ex_spark 1000 ex_df ex_cache_tie))
       = map (\<lambda>j. select_row (columns ex_df) (written_columns ex_params_ttl ex_spark ex_df)
                    (payload j)) (take 1 [ex_j1, ex_t2])"
    by (simp add: ex_priorities_tie ex_params_b_simps)
  from budget_admits_oldest_soft_refresh_rows [OF js2 [symmetric] w2 [symmetric] n']
  have a2: "rows (to_be_written
        (discard_non_new_rows_against_cache ex_params_ttl ex_spark_rev 1000 ex_df ex_cache_tie))
       = map (\<lambda>j. select_row (columns ex_df) (written_columns ex_params_ttl ex_spark_rev ex_df)
                    (payload j)) (take 1 [ex_t2, ex_j1])"
    by (simp add: ex_priorities_tie ex_params_b_simps)
  from js pr w l a ex_written_b(2) b js1 js2 pr' ex_tie_keys l' w1 w2 a1 a2 ex_written_tie
  show ?thesis by (intro conjI)
qed

text \<open>The claim as written fails with a budget of 1, one new row, one row past
  \<open>max_ttl\<close> and two rows past \<open>refresh_ttl\<close>: two rows are candidates for a soft
  refresh, the first of them by \<open>loadedTime\<close> is the row of key 2, and the rows of
  \<open>to_be_written\<close> are the rows of keys 5 and 4: no row of priority 3 is written,
  because the rows of priority 1 and 2 have used the budget.\<close>

theorem budget_regardless_of_urgent_rows_counterexample:
  "refresh_row_limit ex_params_ttl = 1
   \<and> prioritised ex_params_ttl 1000 (joined_df_incoming ex_params_ttl ex_spark ex_df_b ex_cache_b)
       = [ex_j1, ex_j2, ex_j4, ex_j5]
   \<and> map (cachePriority ex_params_ttl 1000) [ex_j1, ex_j2, ex_j4, ex_j5] = [3, 3, 2, 1]
   \<and> map payload [ex_j1, ex_j2, ex_j4, ex_j5] = rows ex_df_b
   \<and> sort_key cache_loadedTime
        (filter (\<lambda>j. cachePriority ex_params_ttl 1000 j = 3) [ex_j1, ex_j2, ex_j4, ex_j5])
       = [ex_j2, ex_j1]
   \<and> filtered_df ex_params_ttl ex_spark 1000 ex_df_b ex_cache_b = [ex_j5, ex_j4]
   \<and> rows (to_be_written
        (discard_non_new_rows_against_cache ex_params_ttl ex_spark 1000 ex_df_b ex_cache_b))
       = [[Some (IntV 5), Some (StrV ''w'')], [Some (IntV 4), Some (StrV ''z'')]]"
  by (simp add: ex_prioritised_b ex_params_b_simps ex_params_ttl_simps ex_priorities
        ex_loadedTime_order ex_filtered_b ex_written_b)
     (simp add: ex_df_b_def ex_j1_def ex_j2_def ex_j4_def ex_j5_def)

text \<open>
  C9. With \<open>refresh_row_limit > 0\<close>, the ranking of the budget is ascending in the
  priority, so every row of priority 1 or 2 is ranked before every row of priority 3.
  The rows of \<open>to_be_written\<close> are the incoming rows of the joined rows that pass the
  budget: first all joined rows of priority 1 and 2, then rows of priority 3,
  \<open>max 0 (min n3 (refresh_row_limit - n1 - n2))\<close> of them, where \<open>n1\<close>, \<open>n2\<close>, \<open>n3\<close>
  count the joined incoming rows of priority 1, 2 and 3; so \<open>to_be_written\<close> has
  \<open>n1 + n2\<close> rows and that many more. With \<open>n1 + n2 \<ge> refresh_row_limit\<close> no row of
  priority 3 passes, and \<open>to_be_written\<close> has \<open>n1 + n2\<close> rows.
\<close>

theorem budget_counts:
  assumes "js = prioritised p t (joined_df_incoming p h df cache)"
      and "refresh_row_limit p > 0"
      and "n1 = length (filter (\<lambda>j. cachePriority p t j = 1) js)"
      and "n2 = length (filter (\<lambda>j. cachePriority p t j = 2) js)"
      and "n3 = length (filter (\<lambda>j. cachePriority p t j = 3) js)"
  shows "sorted (map (cachePriority p t) (window_order p t (tie_order h) js))
       \<and> rows (to_be_written (discard_non_new_rows_against_cache p h t df cache))
           = map (\<lambda>j. select_row (columns df) (written_columns p h df) (payload j))
               (filter (\<lambda>j. cachePriority p t j < 3) (filtered_df p h t df cache)
                @ filter (\<lambda>j. cachePriority p t j = 3) (filtered_df p h t df cache))
       \<and> mset (filter (\<lambda>j. cachePriority p t j < 3) (filtered_df p h t df cache))
           = mset (filter (\<lambda>j. cachePriority p t j = 1 \<or> cachePriority p t j = 2) js)
       \<and> mset (filter (\<lambda>j. cachePriority p t j = 3) (filtered_df p h t df cache))
           \<subseteq># mset (filter (\<lambda>j. cachePriority p t j = 3) js)
       \<and> int (length (filter (\<lambda>j. cachePriority p t j = 3) (filtered_df p h t df cache)))
           = max 0 (min (int n3) (refresh_row_limit p - int n1 - int n2))
       \<and> int (length (rows (to_be_written (discard_non_new_rows_against_cache p h t df cache))))
           = int n1 + int n2 + max 0 (min (int n3) (refresh_row_limit p - int n1 - int n2))
       \<and> (refresh_row_limit p \<le> int n1 + int n2 \<longrightarrow>
            filter (\<lambda>j. cachePriority p t j = 3) (filtered_df p h t df cache) = []
          \<and> length (rows (to_be_written (discard_non_new_rows_against_cache p h t df cache)))
              = n1 + n2)"
proof -
  let ?w = "window_order p t (tie_order h) js"
  let ?u = "filter (\<lambda>j. cachePriority p t j < 3) ?w"
  let ?s = "filter (\<lambda>j. cachePriority p t j = 3) ?w"
  have pr: "\<forall>j \<in> set js. cachePriority p t j = 1 \<or> cachePriority p t j = 2
                             \<or> cachePriority p t j = 3"
    unfolding assms(1) using prioritised_priority by blast
  have n12: "length (filter (\<lambda>j. cachePriority p t j < 3) js) = n1 + n2"
    unfolding assms(3,4) using pr by (rule length_filter_urgent)
  define n where "n = nat (refresh_row_limit p - int (n1 + n2))"
  have fd: "filtered_df p h t df cache = ?u @ take n ?s"
    unfolding n_def n12 [symmetric] by (rule filtered_df_budget [OF assms(2,1)])
  have fu: "filter (\<lambda>j. cachePriority p t j < 3) (filtered_df p h t df cache) = ?u"
  proof -
    have "filter (\<lambda>j. cachePriority p t j < 3) (take n ?s) = []"
      by (rule filter_take_none) simp
    moreover have "filter (\<lambda>j. cachePriority p t j < 3) ?u = ?u" by simp
    ultimately show ?thesis by (simp only: fd filter_append append_Nil2)
  qed
  have fs: "filter (\<lambda>j. cachePriority p t j = 3) (filtered_df p h t df cache) = take n ?s"
  proof -
    have "filter (\<lambda>j. cachePriority p t j = 3) (take n ?s) = take n ?s"
      by (rule filter_take_same) simp
    moreover have "filter (\<lambda>j. cachePriority p t j = 3) ?u = []"
      by (simp only: filter_empty_conv) auto
    ultimately show ?thesis by (simp only: fd filter_append append_Nil)
  qed
  have lu: "length ?u = n1 + n2"
    by (simp only: length_filter_window_order n12)
  have ls: "length ?s = n3"
    by (simp only: length_filter_window_order assms(5))
  have c1: "sorted (map (cachePriority p t) ?w)" by (rule sorted_window_order)
  have c2: "rows (to_be_written (discard_non_new_rows_against_cache p h t df cache))
           = map (\<lambda>j. select_row (columns df) (written_columns p h df) (payload j))
               (filter (\<lambda>j. cachePriority p t j < 3) (filtered_df p h t df cache)
                @ filter (\<lambda>j. cachePriority p t j = 3) (filtered_df p h t df cache))"
    unfolding fu fs by (simp only: rows_to_be_written fd)
  have "filter (\<lambda>j. cachePriority p t j < 3) js
          = filter (\<lambda>j. cachePriority p t j = 1 \<or> cachePriority p t j = 2) js"
    using pr by (intro filter_cong) auto
  then have c3: "mset (filter (\<lambda>j. cachePriority p t j < 3) (filtered_df p h t df cache))
           = mset (filter (\<lambda>j. cachePriority p t j = 1 \<or> cachePriority p t j = 2) js)"
    unfolding fu by (simp only: mset_filter_window_order)
  have "mset (take n ?s) \<subseteq># mset ?s" by (rule mset_take_subset)
  then have c4: "mset (filter (\<lambda>j. cachePriority p t j = 3) (filtered_df p h t df cache))
           \<subseteq># mset (filter (\<lambda>j. cachePriority p t j = 3) js)"
    unfolding fs by (simp only: mset_filter_window_order)
  have c5: "int (length (filter (\<lambda>j. cachePriority p t j = 3) (filtered_df p h t df cache)))
           = max 0 (min (int n3) (refresh_row_limit p - int n1 - int n2))"
    unfolding fs length_take ls n_def by linarith
  have "length (rows (to_be_written (discard_non_new_rows_against_cache p h t df cache)))
          = (n1 + n2) + length (take n ?s)"
    by (simp only: rows_to_be_written fd length_map length_append lu)
  then have c6: "int (length (rows (to_be_written (discard_non_new_rows_against_cache p h t df cache))))
           = int n1 + int n2 + max 0 (min (int n3) (refresh_row_limit p - int n1 - int n2))"
    unfolding length_take ls n_def by linarith
  have c7: "refresh_row_limit p \<le> int n1 + int n2 \<longrightarrow>
            filter (\<lambda>j. cachePriority p t j = 3) (filtered_df p h t df cache) = []
          \<and> length (rows (to_be_written (discard_non_new_rows_against_cache p h t df cache)))
              = n1 + n2"
  proof
    assume "refresh_row_limit p \<le> int n1 + int n2"
    then have "n = 0" by (simp add: n_def)
    then show "filter (\<lambda>j. cachePriority p t j = 3) (filtered_df p h t df cache) = []
          \<and> length (rows (to_be_written (discard_non_new_rows_against_cache p h t df cache)))
              = n1 + n2"
      unfolding fs by (simp add: rows_to_be_written fd lu)
  qed
  from c1 c2 c3 c4 c5 c6 c7 show ?thesis by (intro conjI)
qed

text \<open>The theorem with one new row, one row past \<open>max_ttl\<close> and two rows past
  \<open>refresh_ttl\<close>: with a budget of 3 one of the two passes and three rows are
  written, with a budget of 1 none passes and two rows are written.\<close>

theorem budget_counts_witness:
  "prioritised ex_params_b3 1000 (joined_df_incoming ex_params_b3 ex_spark ex_df_b ex_cache_b)
     = [ex_j1, ex_j2, ex_j4, ex_j5]
   \<and> map (cachePriority ex_params_b3 1000) [ex_j1, ex_j2, ex_j4, ex_j5] = [3, 3, 2, 1]
   \<and> length (filter (\<lambda>j. cachePriority ex_params_b3 1000 j = 3)
        (filtered_df ex_params_b3 ex_spark 1000 ex_df_b ex_cache_b)) = 1
   \<and> length (rows (to_be_written
        (discard_non_new_rows_against_cache ex_params_b3 ex_spark 1000 ex_df_b ex_cache_b))) = 3
   \<and> max 0 (min 2 (refresh_row_limit ex_params_b3 - 1 - 1)) = 1
   \<and> length (filter (\<lambda>j. cachePriority ex_params_ttl 1000 j = 3)
        (filtered_df ex_params_ttl ex_spark 1000 ex_df_b ex_cache_b)) = 0
   \<and> length (rows (to_be_written
        (discard_non_new_rows_against_cache ex_params_ttl ex_spark 1000 ex_df_b ex_cache_b))) = 2
   \<and> max 0 (min 2 (refresh_row_limit ex_params_ttl - 1 - 1)) = 0"
  using budget_counts [where js = "[ex_j1, ex_j2, ex_j4, ex_j5]" and p = ex_params_b3
          and t = 1000 and h = ex_spark and df = ex_df_b and cache = ex_cache_b
          and ?n1.0 = 1 and ?n2.0 = 1 and ?n3.0 = 2]
        budget_counts [where js = "[ex_j1, ex_j2, ex_j4, ex_j5]" and p = ex_params_ttl
          and t = 1000 and h = ex_spark and df = ex_df_b and cache = ex_cache_b
          and ?n1.0 = 1 and ?n2.0 = 1 and ?n3.0 = 2]
  by (simp add: ex_prioritised_b ex_params_b_simps ex_params_ttl_simps ex_priorities
        ex_filtered_b ex_written_b)

section \<open>A failing write operation\<close>

text \<open>
  C3. When \<open>save\<close> reaches the pluggable write operation and it raises \<open>e\<close>, the call
  ends with \<open>e\<close>; the cache table is what it was before the call; and the only call
  made is the one to the write operation: \<open>_load_cache\<close> is not called, for written
  rows or for deleted ones, and the delete operation is not called.
\<close>

theorem save_write_raises:
  assumes "set (key_cols p) \<subseteq> set (columns df)"
      and "write_operation ops (to_be_written (reduction p h clk s df)) = Inl e"
  shows "fst (save ops p h clk s df) = Some e
       \<and> cache_table (snd (save ops p h clk s df)) = cache_table s
       \<and> calls (snd (save ops p h clk s df)) =
           calls s @ [WriteOperation (to_be_written (reduction p h clk s df))]"
  using assms by (simp add: save_def Let_def)

theorem save_write_raises_witness:
  "set (key_cols ex_params) \<subseteq> set (columns ex_df)
   \<and> write_operation ex_failing_ops
        (to_be_written (reduction ex_params ex_spark ex_clock ex_state ex_df))
       = Inl (OperationError ''write failed'')
   \<and> fst (save ex_failing_ops ex_params ex_spark ex_clock ex_state ex_df)
       = Some (OperationError ''write failed'')
   \<and> cache_table (snd (save ex_failing_ops ex_params ex_spark ex_clock ex_state ex_df))
       = cache_table ex_state
   \<and> calls (snd (save ex_failing_ops ex_params ex_spark ex_clock ex_state ex_df))
       = [WriteOperation ex_df]"
  using save_write_raises [of ex_params ex_df ex_failing_ops ex_spark ex_clock ex_state
                              "OperationError ''write failed''"]
  by (simp add: ex_reduction ex_keys ex_state_simps) (simp add: ex_failing_ops_def)

section \<open>Construction\<close>

text \<open>
  C4 (as amended). Construction of a loader succeeds exactly when the cache table has
  the required columns, the class of the object defines \<open>write_operation\<close> or
  \<open>delete_operation\<close> (one of them or both) in its own body, and the class is not
  \<open>CachedLoader\<close> itself. Otherwise \<open>__init__\<close> raises and no loader exists to call
  \<open>save\<close> on.
\<close>

theorem init_succeeds_iff:
  "(\<exists>s. init p table_columns cls tbl = Inr s) \<longleftrightarrow>
     set table_columns =
       set (key_cols p @ cache_id_cols p @ [rowHash_name p, loadedTime_name p, deletedTime_name p])
     \<and> (''write_operation'' \<in> set (class_dict cls) \<or> ''delete_operation'' \<in> set (class_dict cls))
     \<and> \<not> is_CachedLoader cls"
  by (auto simp: init_def validate_def Let_def split: option.splits if_splits)

theorem init_succeeds_iff_witness:
  "(\<exists>s. init ex_params ex_table_columns ex_delete_only_class [] = Inr s)
   \<and> (\<nexists>s. init ex_params ex_table_columns CachedLoader_class [] = Inr s)
   \<and> (\<nexists>s. init ex_params ex_table_columns ex_no_override_class [] = Inr s)"
  using init_succeeds_iff [of ex_params ex_table_columns ex_delete_only_class "[]"]
        init_succeeds_iff [of ex_params ex_table_columns CachedLoader_class "[]"]
        init_succeeds_iff [of ex_params ex_table_columns ex_no_override_class "[]"]
  by (auto simp: ex_params_def ex_table_columns_def CachedLoader_class_def
        ex_delete_only_class_def ex_no_override_class_def)

text \<open>The claim as written fails for a class that overrides both operations: its
  construction succeeds.\<close>

theorem init_both_overridden_counterexample:
  "init ex_params ex_table_columns ex_both_class [] =
     Inr \<lparr>cache_table = [], n_rows_all_writes = 0, n_rows_last_write = 0, calls = []\<rparr>
   \<and> ''write_operation'' \<in> set (class_dict ex_both_class)
   \<and> ''delete_operation'' \<in> set (class_dict ex_both_class)"
  by (auto simp: init_def validate_def ex_params_def ex_table_columns_def ex_both_class_def)

section \<open>Saving the same batch again\<close>

text \<open>
  C5 (as amended). Let a first \<open>save\<close> of a batch return normally, with \<open>max_ttl \<le> 0\<close> and
  \<open>refresh_ttl \<le> 0\<close>, and let its write operation have returned a frame that, cut down to
  the columns it was given, has the rows it was given, and its delete operation, if it
  returned a frame, only rows it was given. Then in a second \<open>save\<close> of the same batch,
  with no other change to the cache table in between, every row of the join has priority
  1000, \<open>to_be_written\<close> has no rows, and that frame without rows is what the write
  operation receives.
\<close>

theorem second_save_writes_nothing:
  assumes ttl: "max_ttl p \<le> 0" "refresh_ttl p \<le> 0"
    and first: "save ops p h clk s df = (None, s1)"
    and written: "write_operation ops (to_be_written (reduction p h clk s df)) = Inr (Some w')"
    and same: "select_row (columns w') (columns (to_be_written (reduction p h clk s df)))
                 ` set (rows w') = set (rows (to_be_written (reduction p h clk s df)))"
    and deleted: "\<forall>d'. delete_operation ops (to_be_deleted (reduction p h clk s df)) = Inr (Some d')
                    \<longrightarrow> set d' \<subseteq> set (to_be_deleted (reduction p h clk s df))"
  shows "(\<forall>j \<in> set (joined_df_incoming p h (dropDuplicates (key_cols p) df)
                       (extract_cache (cache_table s1))).
            cachePriority p (now clk') j = 1000)
       \<and> rows (to_be_written (reduction p h clk' s1 df)) = []
       \<and> (\<exists>rest. calls (snd (save ops p h clk' s1 df))
                  = calls s1 @ WriteOperation \<lparr>columns = written_columns p h df, rows = []\<rparr> # rest)"
proof -
  define df' where "df' = dropDuplicates (key_cols p) df"
  define cache where "cache = extract_cache (cache_table s1)"
  have cols: "columns df' = columns df"
    by (simp add: df'_def dropDuplicates_simps)
  have good: "\<forall>r \<in> set (rows df'). not_null (select_row (columns df') (key_cols p) r) \<longrightarrow>
        (\<exists>c \<in> set cache. ckey c = select_row (columns df') (key_cols p) r)
        \<and> (\<forall>c \<in> set cache. ckey c = select_row (columns df') (key_cols p) r
              \<longrightarrow> rowHash c = Some (hash_star h (columns df') r) \<and> loadedTime c \<noteq> None)"
  proof (intro ballI impI)
    fix r assume r: "r \<in> set (rows df')" "not_null (select_row (columns df') (key_cols p) r)"
    then have r0: "r \<in> set (rows (dropDuplicates (key_cols p) df))"
      "not_null (select_row (columns df) (key_cols p) r)"
      by (simp_all only: df'_def [symmetric] cols [symmetric])
    from first_save_caches_rows [OF first written same deleted r0]
    have g: "cached_with_hash (select_row (columns df') (key_cols p) r)
               (hash_star h (columns df') r) (cache_table s1)"
      by (simp only: cols)
    from g have "\<exists>c \<in> set cache. ckey c = select_row (columns df') (key_cols p) r"
      unfolding cached_with_hash_def cache_def by (rule conjunct1)
    moreover from g have "\<forall>c \<in> set cache. ckey c = select_row (columns df') (key_cols p) r
              \<longrightarrow> rowHash c = Some (hash_star h (columns df') r)"
      unfolding cached_with_hash_def cache_def by (rule conjunct2)
    moreover have "\<forall>c \<in> set cache. loadedTime c \<noteq> None"
      by (simp add: cache_def in_extract_cache)
    ultimately show "(\<exists>c \<in> set cache. ckey c = select_row (columns df') (key_cols p) r)
        \<and> (\<forall>c \<in> set cache. ckey c = select_row (columns df') (key_cols p) r
              \<longrightarrow> rowHash c = Some (hash_star h (columns df') r) \<and> loadedTime c \<noteq> None)"
      by blast
  qed
  note u = up_to_date_rows_not_written [OF ttl good, of "now clk'"]
  have red: "reduction p h clk' s1 df = discard_non_new_rows_against_cache p h (now clk') df' cache"
    by (simp add: reduction_def df'_def cache_def)
  have a: "\<forall>j \<in> set (joined_df_incoming p h (dropDuplicates (key_cols p) df)
                       (extract_cache (cache_table s1))).
            cachePriority p (now clk') j = 1000"
    using u(1) by (simp only: df'_def cache_def)
  have b: "rows (to_be_written (reduction p h clk' s1 df)) = []"
    using u(2) by (simp only: red)
  have "written_columns p h df' = written_columns p h df"
    by (simp add: written_columns_def cols)
  with b have w: "to_be_written (reduction p h clk' s1 df)
                    = \<lparr>columns = written_columns p h df, rows = []\<rparr>"
    by (simp add: red columns_to_be_written)
  from save_calls_write [OF save_None_keys [OF first], of ops h clk' s1]
  have c: "\<exists>rest. calls (snd (save ops p h clk' s1 df))
                  = calls s1 @ WriteOperation \<lparr>columns = written_columns p h df, rows = []\<rparr> # rest"
    by (simp only: w)
  from a b c show ?thesis by blast
qed

theorem second_save_writes_nothing_witness:
  "max_ttl ex_params \<le> 0 \<and> refresh_ttl ex_params \<le> 0
   \<and> save ex_ops ex_params ex_spark ex_clock ex_state ex_df = (None, ex_state_written)
   \<and> to_be_written (reduction ex_params ex_spark ex_clock ex_state ex_df) = ex_df
   \<and> write_operation ex_ops ex_df = Inr (Some ex_written)
   \<and> select_row (columns ex_written) (columns ex_df) ` set (rows ex_written) = set (rows ex_df)
   \<and> delete_operation ex_ops (to_be_deleted (reduction ex_params ex_spark ex_clock ex_state ex_df))
       = Inr (Some (to_be_deleted (reduction ex_params ex_spark ex_clock ex_state ex_df)))
   \<and> rows (to_be_written (reduction ex_params ex_spark ex_clock ex_state_written ex_df)) = []"
proof -
  have ttl: "max_ttl ex_params \<le> 0" "refresh_ttl ex_params \<le> 0"
    by (simp_all add: ex_params_simps)
  have w: "to_be_written (reduction ex_params ex_spark ex_clock ex_state ex_df) = ex_df"
    by (simp add: ex_reduction)
  have written: "write_operation ex_ops
      (to_be_written (reduction ex_params ex_spark ex_clock ex_state ex_df)) = Inr (Some ex_written)"
    by (simp only: w ex_write_ops)
  have same: "select_row (columns ex_written)
       (columns (to_be_written (reduction ex_params ex_spark ex_clock ex_state ex_df)))
         ` set (rows ex_written)
      = set (rows (to_be_written (reduction ex_params ex_spark ex_clock ex_state ex_df)))"
    by (simp only: w ex_written_same)
  have deleted: "\<forall>d'. delete_operation ex_ops
        (to_be_deleted (reduction ex_params ex_spark ex_clock ex_state ex_df)) = Inr (Some d')
        \<longrightarrow> set d' \<subseteq> set (to_be_deleted (reduction ex_params ex_spark ex_clock ex_state ex_df))"
    by (simp add: ex_delete_ops)
  from second_save_writes_nothing [OF ttl ex_save_written written same deleted, of ex_clock]
  have "rows (to_be_written (reduction ex_params ex_spark ex_clock ex_state_written ex_df)) = []"
    by blast
  with ttl ex_save_written w ex_write_ops ex_written_same ex_delete_ops(1) show ?thesis
    by (intro conjI)
qed

text \<open>The claim as written fails for a loader whose write operation returns \<open>None\<close> (one
  that overrides the delete operation only): nothing is cached for the rows of the
  batch, and the second call offers both rows to the write operation again.\<close>

theorem second_save_writes_again_counterexample:
  "max_ttl ex_params \<le> 0 \<and> refresh_ttl ex_params \<le> 0
   \<and> save ex_none_ops ex_params ex_spark ex_clock ex_state ex_df = (None, ex_state_skipped)
   \<and> rows (to_be_written (reduction ex_params ex_spark ex_clock ex_state_skipped ex_df))
       = [[Some (IntV 1), Some (StrV ''x'')], [Some (IntV 2), Some (StrV ''y'')]]
   \<and> calls (snd (save ex_none_ops ex_params ex_spark ex_clock ex_state_skipped ex_df))
       = calls ex_state_skipped @ [WriteOperation ex_df, DeleteOperation [], LoadCache []]"
  by (simp add: ex_params_simps ex_save_skipped ex_reduction_skipped ex_df_simps
        ex_save_skipped_again)

section \<open>New and changed rows\<close>

text \<open>
  C6. Let \<open>r\<close> be a row of the frame given to the reduction whose key columns are all
  non-null. If no row of the cache snapshot has the key of \<open>r\<close>, or some row of the
  snapshot has that key and a hash different from the hash computed for \<open>r\<close>, then
  \<open>r\<close> (its key columns first) is a row of \<open>to_be_written\<close>, whatever \<open>max_ttl\<close>,
  \<open>refresh_ttl\<close>, \<open>refresh_row_limit\<close> and the time are.
\<close>

theorem new_or_changed_row_is_written:
  assumes "r \<in> set (rows df)"
      and "not_null (select_row (columns df) (key_cols p) r)"
      and "(\<forall>c \<in> set cache. ckey c \<noteq> select_row (columns df) (key_cols p) r)
         \<or> (\<exists>c \<in> set cache. ckey c = select_row (columns df) (key_cols p) r
               \<and> (\<exists>ch. rowHash c = Some ch \<and> ch \<noteq> hash_star h (columns df) r))"
  shows "select_row (columns df) (written_columns p h df) r
           \<in> set (rows (to_be_written (discard_non_new_rows_against_cache p h t df cache)))"
proof -
  have "\<exists>j \<in> set (join_row p h (columns df) cache r). cachePriority p t j = 1"
    using assms(3)
  proof
    assume "\<forall>c \<in> set cache. ckey c \<noteq> select_row (columns df) (key_cols p) r"
    then have "cache_matches p (columns df) cache r = []"
      by (auto simp: cache_matches_def sql_key_eq_def filter_empty_conv)
    then show ?thesis
      by (simp add: join_row_def cachePriority_def)
  next
    assume "\<exists>c \<in> set cache. ckey c = select_row (columns df) (key_cols p) r
               \<and> (\<exists>ch. rowHash c = Some ch \<and> ch \<noteq> hash_star h (columns df) r)"
    then obtain c ch where c: "c \<in> set cache" "ckey c = select_row (columns df) (key_cols p) r"
      "rowHash c = Some ch" "ch \<noteq> hash_star h (columns df) r" by blast
    then have m: "c \<in> set (cache_matches p (columns df) cache r)"
      using assms(2) by (simp add: cache_matches_def sql_key_eq_def)
    let ?j = "\<lparr>payload = r, df_rowHash = hash_star h (columns df) r,
               cache_loadedTime = loadedTime c,
               hashMatch = map_option (\<lambda>ch. hash_star h (columns df) r = ch) (rowHash c)\<rparr>"
    from m have "?j \<in> set (join_row p h (columns df) cache r)"
      by (auto simp: join_row_def Let_def)
    moreover have "cachePriority p t ?j = 1"
      using c(3,4) by (auto simp: cachePriority_def split: option.splits)
    ultimately show ?thesis by blast
  qed
  then obtain j where j: "j \<in> set (join_row p h (columns df) cache r)" "cachePriority p t j = 1"
    by blast
  from j(1) assms(1,2) have "j \<in> set (joined_df_incoming p h df cache)"
    by (auto simp: in_joined_df_incoming)
  from priority_one_in_filtered_df [OF this j(2)] have "j \<in> set (filtered_df p h t df cache)" .
  moreover have "payload j = r" using j(1) by (rule join_row_fields)
  ultimately show ?thesis
    by (force simp: rows_to_be_written)
qed

text \<open>The theorem at a row with a new key and at a row whose hash differs from the
  cached one, with both time limits and the budget set.\<close>

theorem new_or_changed_row_is_written_witness:
  "[Some (IntV 2), Some (StrV ''y'')] \<in> set (rows ex_df)
   \<and> not_null (select_row (columns ex_df) (key_cols ex_params_ttl) [Some (IntV 2), Some (StrV ''y'')])
   \<and> [Some (IntV 2)] \<notin> set (map ckey [ex_cache_1, ex_cache_3])
   \<and> [Some (IntV 2), Some (StrV ''y'')]
        \<in> set (rows (to_be_written (discard_non_new_rows_against_cache ex_params_ttl ex_spark 1000
                   ex_df [ex_cache_1, ex_cache_3])))
   \<and> [Some (IntV 1), Some (StrV ''x'')] \<in> set (rows ex_df)
   \<and> ckey ex_cache_1 = select_row (columns ex_df) (key_cols ex_params_ttl) [Some (IntV 1), Some (StrV ''x'')]
   \<and> rowHash ex_cache_1 = Some 7
   \<and> hash_star ex_spark (columns ex_df) [Some (IntV 1), Some (StrV ''x'')] = 40394
   \<and> [Some (IntV 1), Some (StrV ''x'')]
        \<in> set (rows (to_be_written (discard_non_new_rows_against_cache ex_params_ttl ex_spark 1000
                   ex_df [ex_cache_1, ex_cache_3])))"
  using new_or_changed_row_is_written [of "[Some (IntV 2), Some (StrV ''y'')]" ex_df ex_params_ttl
          "[ex_cache_1, ex_cache_3]" ex_spark 1000]
        new_or_changed_row_is_written [of "[Some (IntV 1), Some (StrV ''x'')]" ex_df ex_params_ttl
          "[ex_cache_1, ex_cache_3]" ex_spark 1000]
  by (simp add: ex_params_ttl_simps ex_df_simps select_row_def col_def not_null_def
        written_columns_def hash_star_def hash_cols_def ex_hash_values ex_cache_1_def ex_cache_3_def)

section \<open>Rows to delete\<close>

text \<open>
  C7. For every input of the reduction: each row of the cache snapshot whose key is the
  key of no incoming row with non-null key columns is in \<open>to_be_deleted\<close>; every row of
  \<open>to_be_deleted\<close> is a row of the snapshot, with the columns the cache stores; and no
  row of \<open>to_be_written\<close> has the key of a row of \<open>to_be_deleted\<close>.
\<close>

theorem deleted_rows_and_disjoint_keys:
  "(\<forall>c \<in> set cache.
      (\<forall>r \<in> set (rows df). not_null (select_row (columns df) (key_cols p) r)
          \<longrightarrow> select_row (columns df) (key_cols p) r \<noteq> ckey c)
      \<longrightarrow> c \<in> set (to_be_deleted (discard_non_new_rows_against_cache p h t df cache)))
   \<and> set (to_be_deleted (discard_non_new_rows_against_cache p h t df cache)) \<subseteq> set cache
   \<and> (\<forall>w \<in> set (rows (to_be_written (discard_non_new_rows_against_cache p h t df cache))).
       \<forall>d \<in> set (to_be_deleted (discard_non_new_rows_against_cache p h t df cache)).
         select_row (columns (to_be_written (discard_non_new_rows_against_cache p h t df cache)))
           (key_cols p) w \<noteq> ckey d)"
proof (intro conjI ballI impI)
  fix c
  assume "c \<in> set cache"
    and "\<forall>r \<in> set (rows df). not_null (select_row (columns df) (key_cols p) r)
          \<longrightarrow> select_row (columns df) (key_cols p) r \<noteq> ckey c"
  then show "c \<in> set (to_be_deleted (discard_non_new_rows_against_cache p h t df cache))"
    by (auto simp: to_be_deleted_eq in_unmatched_cache)
next
  show "set (to_be_deleted (discard_non_new_rows_against_cache p h t df cache)) \<subseteq> set cache"
    by (auto simp: to_be_deleted_eq in_unmatched_cache)
next
  fix w d
  assume w: "w \<in> set (rows (to_be_written (discard_non_new_rows_against_cache p h t df cache)))"
    and d: "d \<in> set (to_be_deleted (discard_non_new_rows_against_cache p h t df cache))"
  from written_row_origin [OF w] obtain r where r: "r \<in> set (rows df)"
    "not_null (select_row (columns df) (key_cols p) r)"
    "w = select_row (columns df) (written_columns p h df) r" by blast
  have cols: "columns (to_be_written (discard_non_new_rows_against_cache p h t df cache))
                = written_columns p h df"
    by (simp add: discard_non_new_rows_against_cache_def)
  have "select_row (written_columns p h df) (key_cols p) w = select_row (columns df) (key_cols p) r"
    using r(3) key_of_written_row by simp
  moreover have "select_row (columns df) (key_cols p) r \<noteq> ckey d"
    using d r(1,2) by (auto simp: to_be_deleted_eq in_unmatched_cache)
  ultimately show "select_row (columns (to_be_written (discard_non_new_rows_against_cache p h t df cache)))
           (key_cols p) w \<noteq> ckey d"
    by (simp add: cols)
qed

theorem deleted_rows_and_disjoint_keys_witness:
  "ex_cache_3 \<in> set [ex_cache_1, ex_cache_3]
   \<and> ckey ex_cache_3 \<notin> set (map (select_row (columns ex_df) (key_cols ex_params)) (rows ex_df))
   \<and> to_be_deleted (discard_non_new_rows_against_cache ex_params ex_spark 1000 ex_df
         [ex_cache_1, ex_cache_3]) = [ex_cache_3]
   \<and> map (select_row [''a'', ''b''] (key_cols ex_params))
       (rows (to_be_written (discard_non_new_rows_against_cache ex_params ex_spark 1000 ex_df
         [ex_cache_1, ex_cache_3]))) = [[Some (IntV 1)], [Some (IntV 2)]]
   \<and> [Some (IntV 1)] \<noteq> ckey ex_cache_3 \<and> [Some (IntV 2)] \<noteq> ckey ex_cache_3"
  using deleted_rows_and_disjoint_keys [of "[ex_cache_1, ex_cache_3]" ex_df ex_params ex_spark 1000]
  by (simp add: ex_discard)
     (simp add: ex_df_simps ex_params_ttl_simps ex_cache_3_def select_row_def col_def)

section \<open>When the cache is updated for written rows\<close>

text \<open>
  C8 (as amended). Within a \<open>save\<close> call that reaches the write operation: when the
  write operation returns \<open>None\<close>, the counters stay as they were and the next call
  after the write operation is the delete operation, so no cache update is made for
  written rows. When it returns a frame \<open>w\<close> that has the key columns, the incoming
  columns and the cache id columns, whether or not \<open>w\<close> has rows, the rows of \<open>w\<close>
  are counted and the next call after the write operation is \<open>_load_cache\<close> with the
  cache rows prepared from \<open>w\<close>.
\<close>

theorem save_written_cache_update:
  assumes "set (key_cols p) \<subseteq> set (columns df)"
      and "write_operation ops (to_be_written (reduction p h clk s df)) = Inr df_written"
  shows "(df_written = None \<longrightarrow>
            n_rows_last_write (snd (save ops p h clk s df)) = n_rows_last_write s
          \<and> (\<exists>rest. calls (snd (save ops p h clk s df)) =
                 calls s @ [WriteOperation (to_be_written (reduction p h clk s df)),
                            DeleteOperation (to_be_deleted (reduction p h clk s df))] @ rest))
       \<and> (\<forall>w upd. df_written = Some w
            \<and> prepare_written_cache_update p h (written_timestamp clk) w (columns df) = Inr upd \<longrightarrow>
            n_rows_last_write (snd (save ops p h clk s df)) = length (rows w)
          \<and> (\<exists>rest. calls (snd (save ops p h clk s df)) =
                 calls s @ [WriteOperation (to_be_written (reduction p h clk s df)),
                            LoadCache upd] @ rest))"
proof (intro conjI impI allI)
  assume "df_written = None"
  with assms show "n_rows_last_write (snd (save ops p h clk s df)) = n_rows_last_write s"
    by (simp add: save_def Let_def write_branch_def n_rows_delete_branch)
next
  assume "df_written = None"
  with assms calls_delete_branch [of ops clk "to_be_deleted (reduction p h clk s df)"
        "s\<lparr>calls := calls s @ [WriteOperation (to_be_written (reduction p h clk s df))]\<rparr>"]
  show "\<exists>rest. calls (snd (save ops p h clk s df)) =
                 calls s @ [WriteOperation (to_be_written (reduction p h clk s df)),
                            DeleteOperation (to_be_deleted (reduction p h clk s df))] @ rest"
    by (simp add: save_def Let_def write_branch_def)
next
  fix w upd
  assume a: "df_written = Some w
    \<and> prepare_written_cache_update p h (written_timestamp clk) w (columns df) = Inr upd"
  let ?s1 = "s\<lparr>calls := calls s @ [WriteOperation (to_be_written (reduction p h clk s df))]\<rparr>"
  let ?s2 = "?s1\<lparr>n_rows_last_write := length (rows w),
                   n_rows_all_writes := n_rows_all_writes ?s1 + length (rows w)\<rparr>"
  have wb: "write_branch p h clk (columns df) df_written ?s1 = load_cache upd ?s2"
    using a by (simp add: write_branch_def Let_def)
  have sv: "save ops p h clk s df =
      (case load_cache upd ?s2 of (Some e, s2) \<Rightarrow> (Some e, s2)
        | (None, s2) \<Rightarrow> delete_branch ops clk (to_be_deleted (reduction p h clk s df)) s2)"
    using assms wb by (simp add: save_def Let_def)
  obtain r s3 where l: "load_cache upd ?s2 = (r, s3)"
    by (cases "load_cache upd ?s2")
  from l have c3: "calls s3 = calls ?s2 @ [LoadCache upd]"
    and n3: "n_rows_last_write s3 = length (rows w)"
    using calls_load_cache [of upd ?s2] n_rows_load_cache(1) [of upd ?s2] by simp_all
  show "n_rows_last_write (snd (save ops p h clk s df)) = length (rows w)"
    using sv l n3 by (cases r) (simp_all add: n_rows_delete_branch)
  show "\<exists>rest. calls (snd (save ops p h clk s df)) =
                 calls s @ [WriteOperation (to_be_written (reduction p h clk s df)),
                            LoadCache upd] @ rest"
    using sv l c3 calls_delete_branch [of ops clk "to_be_deleted (reduction p h clk s df)" s3]
    by (cases r) auto
qed

text \<open>The theorem at a write operation that returns \<open>None\<close> and at one that returns
  the two rows it was given.\<close>

theorem save_written_cache_update_witness:
  "write_operation ex_none_ops (to_be_written (reduction ex_params ex_spark ex_clock ex_state ex_df))
     = Inr None
   \<and> n_rows_last_write (snd (save ex_none_ops ex_params ex_spark ex_clock ex_state ex_df)) = 2
   \<and> calls (snd (save ex_none_ops ex_params ex_spark ex_clock ex_state ex_df)) =
       [WriteOperation ex_df, DeleteOperation [ex_cache_3], LoadCache [ex_deleted_3]]
   \<and> write_operation ex_ops (to_be_written (reduction ex_params ex_spark ex_clock ex_state ex_df))
     = Inr (Some ex_written)
   \<and> n_rows_last_write (snd (save ex_ops ex_params ex_spark ex_clock ex_state ex_df)) = 2
   \<and> calls (snd (save ex_ops ex_params ex_spark ex_clock ex_state ex_df)) =
       [WriteOperation ex_df, LoadCache [ex_update_1, ex_update_2],
        DeleteOperation [ex_cache_3], LoadCache [ex_deleted_3]]"
  using save_written_cache_update [of ex_params ex_df ex_none_ops ex_spark ex_clock ex_state None]
        save_written_cache_update [of ex_params ex_df ex_ops ex_spark ex_clock ex_state
          "Some ex_written"]
  by (simp add: ex_reduction ex_keys ex_delete_ops ex_write_ops ex_save_none ex_save_ops
        ex_state_simps)

text \<open>The claim as written fails where the write operation returns a frame without
  rows: the row count is set to 0 and \<open>_load_cache\<close> is called, with no rows, before the
  delete operation.\<close>

theorem save_empty_written_counterexample:
  "write_operation ex_empty_ops
      (to_be_written (reduction ex_params ex_spark ex_clock ex_state ex_df))
     = Inr (Some \<lparr>columns = [''a'', ''b'', ''myId''], rows = []\<rparr>)
   \<and> calls (snd (save ex_empty_ops ex_params ex_spark ex_clock ex_state ex_df)) =
       [WriteOperation ex_df, LoadCache [], DeleteOperation [ex_cache_3],
        LoadCache [ex_deleted_3]]
   \<and> n_rows_last_write (snd (save ex_empty_ops ex_params ex_spark ex_clock ex_state ex_df)) = 0"
  by (simp add: ex_reduction ex_write_empty ex_save_empty)

section \<open>Deleted keys\<close>




end
